theory Spec2Isabelle
  imports Main "HOL-Library.AList"
begin

section \<open>Kernel configuration plugin: bytes, text and the classifier\<close>

text \<open>
  Python \<open>bytes\<close> are lists of 8-bit characters; a Python \<open>str\<close> is a list of Unicode
  code points. \<open>ustr\<close> reads an ASCII literal of the source as a \<open>str\<close>.
\<close>

type_synonym bytes = "char list"
type_synonym str = "nat list"

definition ustr :: "string \<Rightarrow> str" where
  "ustr s = map of_char s"

subsection \<open>\<open>bytes.decode()\<close>: strict UTF-8\<close>

definition cont :: "nat \<Rightarrow> bool" where
  "cont b = (128 \<le> b \<and> b \<le> 191)"

fun utf8_points :: "nat list \<Rightarrow> str option" where
  "utf8_points [] = Some []"
| "utf8_points (b0 # bs) =
     (if b0 < 128 then map_option ((#) b0) (utf8_points bs)
      else if 194 \<le> b0 \<and> b0 \<le> 223 then
        (case bs of
           b1 # r \<Rightarrow>
             if cont b1
             then map_option ((#) ((b0 - 192) * 64 + (b1 - 128))) (utf8_points r)
             else None
         | _ \<Rightarrow> None)
      else if 224 \<le> b0 \<and> b0 \<le> 239 then
        (case bs of
           b1 # b2 # r \<Rightarrow>
             if (if b0 = 224 then 160 \<le> b1 \<and> b1 \<le> 191
                 else if b0 = 237 then 128 \<le> b1 \<and> b1 \<le> 159
                 else cont b1) \<and> cont b2
             then map_option ((#) ((b0 - 224) * 4096 + (b1 - 128) * 64 + (b2 - 128)))
                    (utf8_points r)
             else None
         | _ \<Rightarrow> None)
      else if 240 \<le> b0 \<and> b0 \<le> 244 then
        (case bs of
           b1 # b2 # b3 # r \<Rightarrow>
             if (if b0 = 240 then 144 \<le> b1 \<and> b1 \<le> 191
                 else if b0 = 244 then 128 \<le> b1 \<and> b1 \<le> 143
                 else cont b1) \<and> cont b2 \<and> cont b3
             then map_option
                    ((#) ((b0 - 240) * 262144 + (b1 - 128) * 4096 + (b2 - 128) * 64 + (b3 - 128)))
                    (utf8_points r)
             else None
         | _ \<Rightarrow> None)
      else None)"

definition decode :: "bytes \<Rightarrow> str option" where
  "decode raw = utf8_points (map of_char raw)"

subsection \<open>The two compiled patterns\<close>

text \<open>
  The constructs of \<open>re\<close> that the plugin's two patterns use. A match state is the text
  still to read together with a flag telling whether the position is at the start of a
  line: with \<open>re.MULTILINE\<close>, \<open>^\<close> matches at the start of the text and after every
  newline, \<open>$\<close> at the end of the text and before every newline. \<open>rmatch r s\<close> lists every
  state in which a match of \<open>r\<close> begun in \<open>s\<close> can end.
\<close>

datatype regex =
    Bol
  | Eol
  | Lit str
  | Cls "nat \<Rightarrow> bool"
  | Seq regex regex
  | Alt regex regex
  | Star regex

type_synonym rstate = "bool \<times> str"

definition newline :: nat where
  "newline = 10"

fun consume :: "str \<Rightarrow> rstate \<Rightarrow> rstate list" where
  "consume [] s = [s]"
| "consume (c # cs) (b, []) = []"
| "consume (c # cs) (b, x # xs) = (if c = x then consume cs (x = newline, xs) else [])"

primrec star_iter :: "(rstate \<Rightarrow> rstate list) \<Rightarrow> nat \<Rightarrow> rstate \<Rightarrow> rstate list" where
  "star_iter f 0 s = [s]"
| "star_iter f (Suc n) s =
     s # concat (map (star_iter f n) (filter (\<lambda>s'. length (snd s') < length (snd s)) (f s)))"

primrec rmatch :: "regex \<Rightarrow> rstate \<Rightarrow> rstate list" where
  "rmatch Bol s = (if fst s then [s] else [])"
| "rmatch Eol s = (case snd s of [] \<Rightarrow> [s] | c # _ \<Rightarrow> if c = newline then [s] else [])"
| "rmatch (Lit l) s = consume l s"
| "rmatch (Cls p) s = (case snd s of [] \<Rightarrow> [] | c # cs \<Rightarrow> if p c then [(c = newline, cs)] else [])"
| "rmatch (Seq r1 r2) s = concat (map (rmatch r2) (rmatch r1 s))"
| "rmatch (Alt r1 r2) s = rmatch r1 s @ rmatch r2 s"
| "rmatch (Star r) s = star_iter (rmatch r) (length (snd s)) s"

definition Plus :: "regex \<Rightarrow> regex" where
  "Plus r = Seq r (Star r)"

text \<open>\<open>pattern.findall(content)\<close> is non-empty iff a match starts at some position.\<close>

fun search_from :: "regex \<Rightarrow> bool \<Rightarrow> str \<Rightarrow> bool" where
  "search_from r b [] = (rmatch r (b, []) \<noteq> [])"
| "search_from r b (c # cs) = (rmatch r (b, c # cs) \<noteq> [] \<or> search_from r (c = newline) cs)"

definition findall_nonempty :: "regex \<Rightarrow> str \<Rightarrow> bool" where
  "findall_nonempty r content = search_from r True content"

text \<open>
  Character classes. Below 128 Python's \<open>\w\<close> is \<open>[a-zA-Z0-9_]\<close> and \<open>\d\<close> is \<open>[0-9]\<close>;
  above, both follow the Unicode character database, which is a parameter here
  (\<open>uw\<close> for alphanumeric code points, \<open>ud\<close> for decimal digits).
\<close>

definition dot :: "nat \<Rightarrow> bool" where
  "dot c = (c \<noteq> newline)"

definition ascii_digit :: "nat \<Rightarrow> bool" where
  "ascii_digit c = (48 \<le> c \<and> c \<le> 57)"

definition ascii_word :: "nat \<Rightarrow> bool" where
  "ascii_word c = (ascii_digit c \<or> (65 \<le> c \<and> c \<le> 90) \<or> (97 \<le> c \<and> c \<le> 122) \<or> c = 95)"

definition word_char :: "(nat \<Rightarrow> bool) \<Rightarrow> nat \<Rightarrow> bool" where
  "word_char uw c = (if c < 128 then ascii_word c else uw c)"

definition digit_char :: "(nat \<Rightarrow> bool) \<Rightarrow> nat \<Rightarrow> bool" where
  "digit_char ud c = (if c < 128 then ascii_digit c else ud c)"

definition ymn :: "nat \<Rightarrow> bool" where
  "ymn c = (c = 121 \<or> c = 109 \<or> c = 110)"

text \<open>
  \<open>^(CONFIG|# CONFIG)_\w+=(\d+|[ymn])$\<close> and \<open>^# Linux.* Kernel Configuration$\<close>, each
  written as: start of line, the part between the anchors, end of line.
\<close>

definition config_body :: "(nat \<Rightarrow> bool) \<Rightarrow> (nat \<Rightarrow> bool) \<Rightarrow> regex" where
  "config_body uw ud =
     Seq (Alt (Lit (ustr ''CONFIG'')) (Lit (ustr ''# CONFIG'')))
       (Seq (Lit (ustr ''_'')) (Seq (Plus (Cls (word_char uw))) (Seq (Lit (ustr ''=''))
         (Alt (Plus (Cls (digit_char ud))) (Cls ymn)))))"

definition config_pattern :: "(nat \<Rightarrow> bool) \<Rightarrow> (nat \<Rightarrow> bool) \<Rightarrow> regex" where
  "config_pattern uw ud = Seq Bol (Seq (config_body uw ud) Eol)"

definition kernel_body :: regex where
  "kernel_body =
     Seq (Lit (ustr ''# Linux'')) (Seq (Star (Cls dot)) (Lit (ustr '' Kernel Configuration'')))"

definition kernel_pattern :: regex where
  "kernel_pattern = Seq Bol (Seq kernel_body Eol)"

definition probably_kernel_config :: "(nat \<Rightarrow> bool) \<Rightarrow> (nat \<Rightarrow> bool) \<Rightarrow> bytes \<Rightarrow> bool" where
  "probably_kernel_config uw ud raw_data =
     (case decode raw_data of
        None \<Rightarrow> False
      | Some content \<Rightarrow>
          let config_directives = findall_nonempty (config_pattern uw ud) content;
              kernel_config_banner = findall_nonempty kernel_pattern content
          in kernel_config_banner \<and> config_directives)"

subsection \<open>The classifier as the specification words it\<close>

text \<open>
  The lines of a text are what \<open>content.split('\\n')\<close> gives. A banner line is
  \<open># Linux\<close>, anything, \<open> Kernel Configuration\<close>; a directive line is \<open>CONFIG_\<close> or
  \<open># CONFIG_\<close>, a non-empty run of word characters, \<open>=\<close>, and then either a non-empty
  run of digits or one of \<open>y\<close>, \<open>m\<close>, \<open>n\<close>.
\<close>

fun split_nl :: "str \<Rightarrow> str list" where
  "split_nl [] = [[]]"
| "split_nl (c # cs) =
     (if c = newline then [] # split_nl cs
      else (case split_nl cs of [] \<Rightarrow> [[c]] | l # ls \<Rightarrow> (c # l) # ls))"

definition starts_with :: "str \<Rightarrow> str \<Rightarrow> bool" where
  "starts_with p l = (take (length p) l = p)"

definition ends_with :: "str \<Rightarrow> str \<Rightarrow> bool" where
  "ends_with p l = (length p \<le> length l \<and> drop (length l - length p) l = p)"

definition banner_line :: "str \<Rightarrow> bool" where
  "banner_line l =
     (starts_with (ustr ''# Linux'') l \<and> ends_with (ustr '' Kernel Configuration'') (drop 7 l))"

definition directive_value :: "(nat \<Rightarrow> bool) \<Rightarrow> str \<Rightarrow> bool" where
  "directive_value ud v =
     (v = ustr ''y'' \<or> v = ustr ''m'' \<or> v = ustr ''n'' \<or> (v \<noteq> [] \<and> list_all (digit_char ud) v))"

definition directive_tail :: "(nat \<Rightarrow> bool) \<Rightarrow> (nat \<Rightarrow> bool) \<Rightarrow> str \<Rightarrow> bool" where
  "directive_tail uw ud r =
     (takeWhile (word_char uw) r \<noteq> [] \<and>
      (case dropWhile (word_char uw) r of
         [] \<Rightarrow> False
       | c # v \<Rightarrow> c = 61 \<and> directive_value ud v))"

definition directive_line :: "(nat \<Rightarrow> bool) \<Rightarrow> (nat \<Rightarrow> bool) \<Rightarrow> str \<Rightarrow> bool" where
  "directive_line uw ud l =
     ((starts_with (ustr ''CONFIG_'') l \<and> directive_tail uw ud (drop 7 l)) \<or>
      (starts_with (ustr ''# CONFIG_'') l \<and> directive_tail uw ud (drop 9 l)))"

definition looks_like_kernel_config :: "(nat \<Rightarrow> bool) \<Rightarrow> (nat \<Rightarrow> bool) \<Rightarrow> bytes \<Rightarrow> bool" where
  "looks_like_kernel_config uw ud raw =
     (case decode raw of
        None \<Rightarrow> False
      | Some content \<Rightarrow>
          list_ex banner_line (split_nl content) \<and>
          list_ex (directive_line uw ud) (split_nl content))"

section \<open>Signature scanner and decompression cascade\<close>

definition MAGIC_WORD :: bytes where
  "MAGIC_WORD = ''IKCFG_ST'' @ [CHR 0x1F, CHR 0x8B]"

text \<open>\<open>bytes.find(sub)\<close>: the lowest offset at which \<open>sub\<close> occurs, \<open>-1\<close> when it does not.\<close>

fun find_from :: "bytes \<Rightarrow> bytes \<Rightarrow> int \<Rightarrow> int" where
  "find_from [] sub i = (if sub = [] then i else - 1)"
| "find_from (x # xs) sub i =
     (if take (length sub) (x # xs) = sub then i else find_from xs sub (i + 1))"

definition bytes_find :: "bytes \<Rightarrow> bytes \<Rightarrow> int" where
  "bytes_find raw sub = find_from raw sub 0"

text \<open>
  \<open>decompress\<close> (the plugin's \<open>internal.decomp\<close>) is a parameter: it takes a buffer to
  the list of its successful decodings. The second half of \<open>try_object_extract_ikconfig\<close>
  (from \<open>start_offset = container.find(MAGIC_WORD)\<close> on) is \<open>extract_from_container\<close>.
\<close>

definition extract_from_container :: "(bytes \<Rightarrow> bytes list) \<Rightarrow> bytes \<Rightarrow> bytes" where
  "extract_from_container decompress container =
     (let start_offset = bytes_find container MAGIC_WORD in
      if start_offset < 0 then []
      else
        let maybe_configs = decompress (drop (nat start_offset) container) in
        if length maybe_configs = 0 then [] else maybe_configs ! 0)"

definition try_object_extract_ikconfig :: "(bytes \<Rightarrow> bytes list) \<Rightarrow> bytes \<Rightarrow> bytes" where
  "try_object_extract_ikconfig decompress raw_data =
     (if bytes_find raw_data MAGIC_WORD < 0 then
        let inner = decompress raw_data in
        if length inner = 0 then [] else extract_from_container decompress (inner ! 0)
      else extract_from_container decompress raw_data)"

subsection \<open>The cascade as the specification words it\<close>

definition locate :: "bytes \<Rightarrow> bytes \<Rightarrow> nat option" where
  "locate buffer signature =
     List.find (\<lambda>i. take (length signature) (drop i buffer) = signature)
       [0..<Suc (length buffer)]"

definition first_candidate :: "bytes list \<Rightarrow> bytes option" where
  "first_candidate cands = (case cands of [] \<Rightarrow> None | c # _ \<Rightarrow> Some c)"

definition extract_embedded_config :: "(bytes \<Rightarrow> bytes list) \<Rightarrow> bytes \<Rightarrow> bytes" where
  "extract_embedded_config decompress raw =
     (case (if locate raw MAGIC_WORD \<noteq> None then Some raw
            else first_candidate (decompress raw)) of
        None \<Rightarrow> []
      | Some container \<Rightarrow>
          (case locate container MAGIC_WORD of
             None \<Rightarrow> []
           | Some offset \<Rightarrow>
               (case first_candidate (decompress (drop offset container)) of
                  None \<Rightarrow> []
                | Some config \<Rightarrow> config)))"

section \<open>Hardening result filter and audit step\<close>

text \<open>
  The values \<open>json.loads\<close> builds: \<open>None\<close>, \<open>bool\<close>, \<open>int\<close>, \<open>float\<close>, \<open>str\<close>, \<open>list\<close>
  and \<open>dict\<close>. A \<open>dict\<close> is an association list in insertion order; \<open>AList.update\<close>
  stores under a key (in place, or at the end when the key is new) and \<open>AList.delete\<close>
  is \<open>del d[key]\<close> for a key of \<open>d\<close>. A \<open>float\<close> is kept as the bit pattern of its
  double; nothing here computes with one.
\<close>

datatype json =
    JNull
  | JBool bool
  | JInt int
  | JFloat nat
  | JStr str
  | JArr "json list"
  | JObj "(str \<times> json) list"

type_synonym dict = "(str \<times> json) list"

datatype py_error =
    JSONDecodeError
  | KeyError
  | TypeError
  | AttributeError
  | IndexError
  | UnicodeDecodeError

definition KERNEL_WHITELIST :: "str list" where
  "KERNEL_WHITELIST = map ustr
     [''kernel_heap_randomization'', ''gcc_stack_protector'', ''gcc_stack_protector_strong'',
      ''gcc_structleak'', ''gcc_structleak_byref'', ''slab_freelist_randomization'',
      ''cpu_sw_domain'', ''virtually_mapped_stack'', ''restrict_dev_mem_access'',
      ''restrict_io_dev_mem_access'', ''ro_kernel_data'', ''ro_module_data'',
      ''full_refcount_validation'', ''hardened_usercopy'', ''fortify_source'',
      ''restrict_dev_kmem_access'', ''strict_user_copy_check'',
      ''random_address_space_layout'', ''arm_kernmem_perms'', ''arm_strict_rodata'',
      ''unmap_kernel_in_userspace'', ''harden_branch_predictor'',
      ''harden_el2_vector_mapping'', ''speculative_store_bypass_disable'',
      ''emulate_privileged_access_never'', ''randomize_kernel_address'',
      ''randomize_module_region_full'']"

definition GRSECURITY_WHITELIST :: "str list" where
  "GRSECURITY_WHITELIST = map ustr
     [''grsecurity_config'', ''config_pax_kernexec'', ''config_pax_noexec'',
      ''config_pax_pageexec'', ''config_pax_mprotect'', ''config_pax_aslr'',
      ''config_pax_randkstack'', ''config_pax_randustack'', ''config_pax_randmmap'',
      ''config_pax_memory_sanitize'', ''config_pax_memory_stackleak'',
      ''config_pax_memory_uderef'', ''config_pax_refcount'', ''config_pax_usercopy'',
      ''config_grkernsec_jit_harden'', ''config_bpf_jit'',
      ''config_grkernsec_rand_threadstack'', ''config_grkernsec_kmem'',
      ''config_grkernsec_io'', ''config_grkernsec_modharden'', ''config_modules'',
      ''config_grkernsec_chroot'', ''config_grkernsec_harden_ptrace'',
      ''config_grkernsec_randnet'', ''config_grkernsec_blackhole'',
      ''config_grkernsec_brute'', ''config_grkernsec_hidesym'']"

text \<open>
  \<open>obj[key]\<close> for a \<open>str\<close> key: a \<open>dict\<close> looks the key up and raises \<open>KeyError\<close> when
  it is missing; a \<open>list\<close> or \<open>str\<close> wants an integer index and the other values are not
  subscriptable, which is \<open>TypeError\<close> both times.
\<close>

fun getitem :: "json \<Rightarrow> str \<Rightarrow> py_error + json" where
  "getitem (JObj kvs) key = (case map_of kvs key of None \<Rightarrow> Inl KeyError | Some v \<Rightarrow> Inr v)"
| "getitem _ key = Inl TypeError"

text \<open>
  One loop of \<open>whitelist_configs\<close>:
  \<open>for key in section.copy(): if key not in whitelist: del section[key]\<close>.
  A \<open>dict\<close> is copied and its keys are visited; a \<open>list\<close> is copied too, its elements are
  visited, and \<open>del section[element]\<close> deletes by index when the element is an \<open>int\<close> or
  \<open>bool\<close> and raises \<open>TypeError\<close> otherwise; every other value has no \<open>copy\<close>.
\<close>

definition del_index :: "json list \<Rightarrow> int \<Rightarrow> py_error + json list" where
  "del_index xs i =
     (if - int (length xs) \<le> i \<and> i < int (length xs) then
        let position = nat (if i < 0 then i + int (length xs) else i)
        in Inr (take position xs @ drop (Suc position) xs)
      else Inl IndexError)"

fun list_del :: "json list \<Rightarrow> json \<Rightarrow> py_error + json list" where
  "list_del xs (JInt i) = del_index xs i"
| "list_del xs (JBool b) = del_index xs (if b then 1 else 0)"
| "list_del xs _ = Inl TypeError"

fun in_whitelist :: "json \<Rightarrow> str list \<Rightarrow> bool" where
  "in_whitelist (JStr s) whitelist = (s \<in> set whitelist)"
| "in_whitelist _ whitelist = False"

fun filter_list :: "str list \<Rightarrow> json list \<Rightarrow> json list \<Rightarrow> py_error + json list" where
  "filter_list whitelist [] section = Inr section"
| "filter_list whitelist (key # keys) section =
     (if \<not> in_whitelist key whitelist then
        (case list_del section key of
           Inl e \<Rightarrow> Inl e
         | Inr section' \<Rightarrow> filter_list whitelist keys section')
      else filter_list whitelist keys section)"

definition filter_dict :: "str list \<Rightarrow> dict \<Rightarrow> dict" where
  "filter_dict whitelist section =
     fold (\<lambda>key d. if key \<notin> set whitelist then AList.delete key d else d)
       (map fst section) section"

fun filter_section :: "str list \<Rightarrow> json \<Rightarrow> py_error + json" where
  "filter_section whitelist (JObj section) = Inr (JObj (filter_dict whitelist section))"
| "filter_section whitelist (JArr section) =
     (case filter_list whitelist section section of
        Inl e \<Rightarrow> Inl e
      | Inr section' \<Rightarrow> Inr (JArr section'))"
| "filter_section whitelist _ = Inl AttributeError"

text \<open>
  \<open>whitelist_configs\<close> mutates its argument; the model returns the mutated report, or
  the exception raised on the way.
\<close>

fun setitem :: "json \<Rightarrow> str \<Rightarrow> json \<Rightarrow> json" where
  "setitem (JObj kvs) key v = JObj (AList.update key v kvs)"
| "setitem j key v = j"

definition whitelist_configs :: "json \<Rightarrow> py_error + json" where
  "whitelist_configs config_results =
     (case getitem config_results (ustr ''kernel'') of
        Inl e \<Rightarrow> Inl e
      | Inr kernel_section \<Rightarrow>
          (case filter_section KERNEL_WHITELIST kernel_section of
             Inl e \<Rightarrow> Inl e
           | Inr kernel_section' \<Rightarrow>
               let config_results' = setitem config_results (ustr ''kernel'') kernel_section' in
               (case getitem config_results' (ustr ''grsecurity'') of
                  Inl e \<Rightarrow> Inl e
                | Inr grsecurity \<Rightarrow>
                    (case filter_section GRSECURITY_WHITELIST grsecurity of
                       Inl e \<Rightarrow> Inl e
                     | Inr grsecurity' \<Rightarrow>
                         Inr (setitem config_results' (ustr ''grsecurity'') grsecurity')))))"

text \<open>
  What the plugin takes from outside: the Unicode tables behind \<open>\w\<close>, \<open>\d\<close> and
  \<open>str.lower\<close> for code points from 128 on (the latter given the text before and after
  the code point), the decompression routine, the auditor run on a temporary file that
  holds the configuration text, and \<open>json.loads\<close> (\<open>None\<close> for \<open>JSONDecodeError\<close>).
\<close>

record platform =
  unicode_word :: "nat \<Rightarrow> bool"
  unicode_digit :: "nat \<Rightarrow> bool"
  unicode_lower :: "str \<Rightarrow> nat \<Rightarrow> str \<Rightarrow> str"
  decompress :: "bytes \<Rightarrow> bytes list"
  execute_checksec :: "str \<Rightarrow> str"
  json_loads :: "str \<Rightarrow> json option"

text \<open>\<open>except (JSONDecodeError, KeyError)\<close>: log, fall through to \<open>return {}\<close>.\<close>

definition except_handler :: "py_error \<Rightarrow> py_error + json" where
  "except_handler e = (if e = JSONDecodeError \<or> e = KeyError then Inr (JObj []) else Inl e)"

definition check_kernel_config :: "platform \<Rightarrow> str \<Rightarrow> py_error + json" where
  "check_kernel_config P kernel_config =
     (case json_loads P (execute_checksec P kernel_config) of
        None \<Rightarrow> except_handler JSONDecodeError
      | Some result \<Rightarrow>
          (case whitelist_configs result of
             Inl e \<Rightarrow> except_handler e
           | Inr result' \<Rightarrow> Inr result'))"

section \<open>The analysis of one object\<close>

text \<open>
  A \<open>FileObject\<close> as far as the plugin reads and writes it. \<open>processed_analysis\<close> maps the
  name of an analysis to its result, itself a \<open>dict\<close>; \<open>analysis_tags\<close> holds the tags
  emitted for downstream indexing.
\<close>

record file_object =
  binary :: bytes
  file_name :: str
  processed_analysis :: "(str \<times> dict) list"
  analysis_tags :: "(str \<times> str) list"

definition NAME :: str where
  "NAME = ustr ''kernel_config''"

text \<open>
  Modelled from the spec: \<open>add_analysis_tag\<close> of the plugin base class
  (\<open>AnalysisBasePlugin\<close>), whose code is not among the source files. It emits one
  descriptive tag when a configuration is found.
\<close>

definition add_analysis_tag :: "file_object \<Rightarrow> str \<Rightarrow> str \<Rightarrow> file_object" where
  "add_analysis_tag file_object tag_name v =
     file_object\<lparr>analysis_tags := analysis_tags file_object @ [(tag_name, v)]\<rparr>"

subsection \<open>The two hints\<close>

definition object_mime_is_plaintext :: "file_object \<Rightarrow> bool" where
  "object_mime_is_plaintext file_object =
     (let analysis = processed_analysis file_object in
      case map_of analysis (ustr ''file_type'') of
        None \<Rightarrow> False
      | Some file_type \<Rightarrow>
          (case map_of file_type (ustr ''mime'') of
             None \<Rightarrow> False
           | Some mime \<Rightarrow> mime = JStr (ustr ''text/plain'')))"

text \<open>
  \<open>str.lower\<close>: below 128 only \<open>A\<close> to \<open>Z\<close> change; from 128 on the Unicode tables decide.
\<close>

definition ascii_lower :: "nat \<Rightarrow> nat" where
  "ascii_lower c = (if 65 \<le> c \<and> c \<le> 90 then c + 32 else c)"

fun lower_from :: "(str \<Rightarrow> nat \<Rightarrow> str \<Rightarrow> str) \<Rightarrow> str \<Rightarrow> str \<Rightarrow> str" where
  "lower_from ul seen [] = []"
| "lower_from ul seen (c # cs) =
     (if c < 128 then [ascii_lower c] else ul seen c cs) @ lower_from ul (seen @ [c]) cs"

definition str_lower :: "(str \<Rightarrow> nat \<Rightarrow> str \<Rightarrow> str) \<Rightarrow> str \<Rightarrow> str" where
  "str_lower ul s = lower_from ul [] s"

text \<open>\<open>sub in s\<close> for two \<open>str\<close>.\<close>

fun str_contains :: "str \<Rightarrow> str \<Rightarrow> bool" where
  "str_contains sub [] = (sub = [])"
| "str_contains sub (x # xs) = (take (length sub) (x # xs) = sub \<or> str_contains sub xs)"

text \<open>
  \<open>any('linux kernel' in component.lower() for component in summary)\<close>: iterating a
  \<open>list\<close> gives its elements, a \<open>str\<close> its characters, a \<open>dict\<close> its keys, and anything else
  raises \<open>TypeError\<close>; a component that is not a \<open>str\<close> has no \<open>lower\<close>. \<open>any\<close> stops at the
  first component that matches.
\<close>

fun py_iter :: "json \<Rightarrow> py_error + json list" where
  "py_iter (JArr xs) = Inr xs"
| "py_iter (JStr s) = Inr (map (\<lambda>c. JStr [c]) s)"
| "py_iter (JObj kvs) = Inr (map (\<lambda>kv. JStr (fst kv)) kvs)"
| "py_iter _ = Inl TypeError"

fun any_linux_kernel :: "(str \<Rightarrow> nat \<Rightarrow> str \<Rightarrow> str) \<Rightarrow> json list \<Rightarrow> py_error + bool" where
  "any_linux_kernel ul [] = Inr False"
| "any_linux_kernel ul (JStr component # components) =
     (if str_contains (ustr ''linux kernel'') (str_lower ul component) then Inr True
      else any_linux_kernel ul components)"
| "any_linux_kernel ul (_ # components) = Inl AttributeError"

definition object_is_kernel_image :: "platform \<Rightarrow> file_object \<Rightarrow> py_error + bool" where
  "object_is_kernel_image P file_object =
     (case map_of (processed_analysis file_object) (ustr ''software_components'') of
        None \<Rightarrow> Inr False
      | Some software_components \<Rightarrow>
          (case map_of software_components (ustr ''summary'') of
             None \<Rightarrow> Inr False
           | Some summary \<Rightarrow>
               (case py_iter summary of
                  Inl e \<Rightarrow> Inl e
                | Inr components \<Rightarrow> any_linux_kernel (unicode_lower P) components)))"

subsection \<open>\<open>process_object\<close>\<close>

text \<open>\<open>file_object.processed_analysis[NAME][key] = v\<close>.\<close>

definition set_result :: "file_object \<Rightarrow> str \<Rightarrow> json \<Rightarrow> py_error + file_object" where
  "set_result file_object key v =
     (case map_of (processed_analysis file_object) NAME of
        None \<Rightarrow> Inl KeyError
      | Some results \<Rightarrow>
          Inr (file_object\<lparr>processed_analysis :=
                 AList.update NAME (AList.update key v results)
                   (processed_analysis file_object)\<rparr>))"

definition get_result :: "file_object \<Rightarrow> py_error + dict" where
  "get_result file_object =
     (case map_of (processed_analysis file_object) NAME of
        None \<Rightarrow> Inl KeyError
      | Some results \<Rightarrow> Inr results)"

definition get_summary :: "dict \<Rightarrow> str list" where
  "get_summary results =
     (if map_of results (ustr ''is_kernel_config'') = Some (JBool True)
      then [ustr ''Kernel Config''] else [])"

definition add_kernel_config_to_analysis ::
    "file_object \<Rightarrow> bytes \<Rightarrow> py_error + file_object" where
  "add_kernel_config_to_analysis file_object config_bytes =
     (case set_result file_object (ustr ''is_kernel_config'') (JBool True) of
        Inl e \<Rightarrow> Inl e
      | Inr fo1 \<Rightarrow>
          (case decode config_bytes of
             None \<Rightarrow> Inl UnicodeDecodeError
           | Some kernel_config \<Rightarrow>
               (case set_result fo1 (ustr ''kernel_config'') (JStr kernel_config) of
                  Inl e \<Rightarrow> Inl e
                | Inr fo2 \<Rightarrow>
                    Inr (add_analysis_tag fo2 (ustr ''IKCONFIG'') (ustr ''Kernel Configuration'')))))"

definition classify :: "platform \<Rightarrow> bytes \<Rightarrow> bool" where
  "classify P raw_data = probably_kernel_config (unicode_word P) (unicode_digit P) raw_data"

text \<open>The \<open>if\<close>/\<open>elif\<close> of \<open>process_object\<close>, on the object whose result is a fresh \<open>dict\<close>.\<close>

definition find_config :: "platform \<Rightarrow> file_object \<Rightarrow> py_error + file_object" where
  "find_config P file_object =
     (if object_mime_is_plaintext file_object \<and> classify P (binary file_object)
      then add_kernel_config_to_analysis file_object (binary file_object)
      else
        (case (if file_name file_object = ustr ''configs.ko'' then Inr True
               else object_is_kernel_image P file_object) of
           Inl e \<Rightarrow> Inl e
         | Inr False \<Rightarrow> Inr file_object
         | Inr True \<Rightarrow>
             let maybe_config = try_object_extract_ikconfig (decompress P) (binary file_object)
             in if classify P maybe_config
                then add_kernel_config_to_analysis file_object maybe_config
                else Inr file_object))"

text \<open>
  The last two statements: the summary, and the audit of \<open>kernel_config\<close> when that key
  is there (a value that is not a \<open>str\<close> has no \<open>encode\<close>).
\<close>

definition add_summary :: "file_object \<Rightarrow> py_error + file_object" where
  "add_summary file_object =
     (case get_result file_object of
        Inl e \<Rightarrow> Inl e
      | Inr results \<Rightarrow>
          set_result file_object (ustr ''summary'') (JArr (map JStr (get_summary results))))"

definition add_checksec :: "platform \<Rightarrow> file_object \<Rightarrow> py_error + file_object" where
  "add_checksec P file_object =
     (case get_result file_object of
        Inl e \<Rightarrow> Inl e
      | Inr results \<Rightarrow>
          (case map_of results (ustr ''kernel_config'') of
             None \<Rightarrow> Inr file_object
           | Some (JStr kernel_config) \<Rightarrow>
               (case check_kernel_config P kernel_config of
                  Inl e \<Rightarrow> Inl e
                | Inr report \<Rightarrow> set_result file_object (ustr ''checksec'') report)
           | Some _ \<Rightarrow> Inl AttributeError))"

definition process_object :: "platform \<Rightarrow> file_object \<Rightarrow> py_error + file_object" where
  "process_object P file_object =
     (let fo0 = file_object\<lparr>processed_analysis :=
                  AList.update NAME [] (processed_analysis file_object)\<rparr>
      in case find_config P fo0 of
           Inl e \<Rightarrow> Inl e
         | Inr fo1 \<Rightarrow>
             (case add_summary fo1 of
                Inl e \<Rightarrow> Inl e
              | Inr fo2 \<Rightarrow> add_checksec P fo2))"

subsection \<open>The decision policy as the specification words it\<close>

datatype verdict = NotAConfig | Found str

text \<open>The verdict a result record carries: the flag together with the text.\<close>

definition verdict_of :: "file_object \<Rightarrow> verdict" where
  "verdict_of file_object =
     (case map_of (processed_analysis file_object) NAME of
        None \<Rightarrow> NotAConfig
      | Some results \<Rightarrow>
          (case map_of results (ustr ''kernel_config'') of
             Some (JStr config_text) \<Rightarrow>
               if map_of results (ustr ''is_kernel_config'') = Some (JBool True)
               then Found config_text else NotAConfig
           | _ \<Rightarrow> NotAConfig))"

text \<open>
  The hints of a raw object: the declared MIME type and the component hints, a list
  of texts. \<open>hints_typed\<close> says that the component summary, when there is one, is such a
  list.
\<close>

definition declared_mime :: "file_object \<Rightarrow> json option" where
  "declared_mime file_object =
     (case map_of (processed_analysis file_object) (ustr ''file_type'') of
        None \<Rightarrow> None
      | Some file_type \<Rightarrow> map_of file_type (ustr ''mime''))"

fun texts_of :: "json list \<Rightarrow> str list option" where
  "texts_of [] = Some []"
| "texts_of (JStr s # js) = map_option ((#) s) (texts_of js)"
| "texts_of (_ # js) = None"

definition component_hints :: "file_object \<Rightarrow> str list option" where
  "component_hints file_object =
     (case map_of (processed_analysis file_object) (ustr ''software_components'') of
        None \<Rightarrow> Some []
      | Some software_components \<Rightarrow>
          (case map_of software_components (ustr ''summary'') of
             None \<Rightarrow> Some []
           | Some (JArr components) \<Rightarrow> texts_of components
           | Some _ \<Rightarrow> None))"

definition hints_typed :: "file_object \<Rightarrow> bool" where
  "hints_typed file_object = (component_hints file_object \<noteq> None)"

definition as_text :: "bytes \<Rightarrow> verdict" where
  "as_text raw = (case decode raw of None \<Rightarrow> NotAConfig | Some t \<Rightarrow> Found t)"

definition policy :: "platform \<Rightarrow> file_object \<Rightarrow> verdict" where
  "policy P object =
     (if declared_mime object = Some (JStr (ustr ''text/plain'')) \<and> classify P (binary object)
      then as_text (binary object)
      else if file_name object = ustr ''configs.ko'' \<or>
              list_ex (\<lambda>hint. str_contains (ustr ''linux kernel'') (str_lower (unicode_lower P) hint))
                (case component_hints object of None \<Rightarrow> [] | Some hints \<Rightarrow> hints)
      then
        let result = try_object_extract_ikconfig (decompress P) (binary object)
        in if classify P result then as_text result else NotAConfig
      else NotAConfig)"

section \<open>Letter case in the classifier\<close>

text \<open>
  A line is a banner up to letter case when it is a banner line once the line and the two
  fixed parts of the pattern are put in lower case; likewise for the prefix of a directive.
  Neither pattern is compiled with \<open>re.IGNORECASE\<close>.
\<close>

definition lowered :: "str \<Rightarrow> str" where
  "lowered l = map ascii_lower l"

definition banner_line_nocase :: "str \<Rightarrow> bool" where
  "banner_line_nocase l =
     (starts_with (lowered (ustr ''# Linux'')) (lowered l) \<and>
      ends_with (lowered (ustr '' Kernel Configuration'')) (drop 7 (lowered l)))"

definition config_prefix_nocase :: "str \<Rightarrow> bool" where
  "config_prefix_nocase l =
     (starts_with (lowered (ustr ''CONFIG_'')) (lowered l) \<or>
      starts_with (lowered (ustr ''# CONFIG_'')) (lowered l))"

definition lowercase_config_prefix :: "str \<Rightarrow> bool" where
  "lowercase_config_prefix l =
     (starts_with (ustr ''config_'') l \<or> starts_with (ustr ''# config_'') l)"

section \<open>Audit reports\<close>

text \<open>
  An audit report maps a section name to a mapping from flag names to values:
  \<open>report_section r name\<close> is the section of that name when \<open>r\<close> is a \<open>dict\<close> that has it as a \<open>dict\<close>.
  \<open>audit_report r\<close> says that \<open>r\<close> has both sections the filter works on.
\<close>

fun report_section :: "json \<Rightarrow> str \<Rightarrow> dict option" where
  "report_section (JObj kvs) name = (case map_of kvs name of Some (JObj d) \<Rightarrow> Some d | _ \<Rightarrow> None)"
| "report_section _ name = None"

fun entry :: "json \<Rightarrow> str \<Rightarrow> json option" where
  "entry (JObj kvs) name = map_of kvs name"
| "entry _ name = None"

fun section_names :: "json \<Rightarrow> str list" where
  "section_names (JObj kvs) = map fst kvs"
| "section_names _ = []"

definition audit_report :: "json \<Rightarrow> bool" where
  "audit_report r = (report_section r (ustr ''kernel'') \<noteq> None \<and> report_section r (ustr ''grsecurity'') \<noteq> None)"

definition allowed :: "str list \<Rightarrow> dict \<Rightarrow> dict" where
  "allowed whitelist d = filter (\<lambda>kv. fst kv \<in> set whitelist) d"





section \<open>Example inputs\<close>

definition nl :: bytes where
  "nl = [CHR 0x0A]"

definition example_config :: bytes where
  "example_config =
     ''# Linux 5.4.0 Kernel Configuration'' @ nl @ ''CONFIG_FOO=y'' @ nl @ ''# CONFIG_BAR=n'' @ nl"

definition banner_only :: bytes where
  "banner_only = ''# Linux 5.4.0 Kernel Configuration'' @ nl @ ''KEY=value'' @ nl"

definition directives_only :: bytes where
  "directives_only = ''Kernel Configuration'' @ nl @ ''CONFIG_FOO=y'' @ nl @ ''# CONFIG_BAR=17'' @ nl"

definition not_utf8 :: bytes where
  "not_utf8 = ''CONFIG_FOO=y'' @ [CHR 0xFF]"

definition ascii_only :: "nat \<Rightarrow> bool" where
  "ascii_only c = False"

definition lowercase_banner :: bytes where
  "lowercase_banner = ''# linux 5.4.0 kernel configuration'' @ nl @ ''CONFIG_FOO=y'' @ nl"

definition lowercase_directive :: bytes where
  "lowercase_directive = ''# Linux 5.4.0 Kernel Configuration'' @ nl @ ''config_foo=y'' @ nl"

definition canonical_casing :: bytes where
  "canonical_casing = ''# Linux 5.4.0 Kernel Configuration'' @ nl @ ''CONFIG_FOO=y'' @ nl"

definition example_decompress :: "bytes \<Rightarrow> bytes list" where
  "example_decompress b =
     (if b = MAGIC_WORD @ ''xyz'' then [example_config, ''second candidate'']
      else if b = ''wrapped'' then [''hdr'' @ MAGIC_WORD @ ''xyz'']
      else if b = ''abc'' then [''def'']
      else [])"

definition example_report :: json where
  "example_report =
     JObj [(ustr ''kernel'',
              JObj [(ustr ''gcc_stack_protector'', JStr (ustr ''yes'')),
                    (ustr ''unrelated_flag'', JStr (ustr ''no''))]),
           (ustr ''grsecurity'', JObj []),
           (ustr ''selinux'', JObj [(ustr ''enforcing'', JBool True)])]"

definition example_report_filtered :: json where
  "example_report_filtered =
     JObj [(ustr ''kernel'', JObj [(ustr ''gcc_stack_protector'', JStr (ustr ''yes''))]),
           (ustr ''grsecurity'', JObj []),
           (ustr ''selinux'', JObj [(ustr ''enforcing'', JBool True)])]"

definition report_without_grsecurity :: json where
  "report_without_grsecurity =
     JObj [(ustr ''kernel'', JObj [(ustr ''gcc_stack_protector'', JStr (ustr ''yes''))])]"

definition no_lowering :: "str \<Rightarrow> nat \<Rightarrow> str \<Rightarrow> str" where
  "no_lowering seen c rest = [c]"

definition example_checksec :: "str \<Rightarrow> str" where
  "example_checksec kernel_config = ustr ''report''"




definition example_loads :: "str \<Rightarrow> json option" where
  "example_loads s =
     (if s = ustr ''report'' then Some example_report
      else if s = ustr ''partial report'' then Some report_without_grsecurity
      else if s = ustr ''[]'' then Some (JArr [])
      else None)"

definition example_platform :: platform where
  "example_platform =
     \<lparr>unicode_word = ascii_only, unicode_digit = ascii_only, unicode_lower = no_lowering,
      decompress = example_decompress, execute_checksec = example_checksec,
      json_loads = example_loads\<rparr>"




definition plain_object :: file_object where
  "plain_object =
     \<lparr>binary = example_config, file_name = ustr ''config-5.4.0'',
      processed_analysis = [(ustr ''file_type'', [(ustr ''mime'', JStr (ustr ''text/plain''))])],
      analysis_tags = []\<rparr>"

definition octet_object :: file_object where
  "octet_object =
     \<lparr>binary = example_config, file_name = ustr ''config-5.4.0'',
      processed_analysis =
        [(ustr ''file_type'', [(ustr ''mime'', JStr (ustr ''application/octet-stream''))])],
      analysis_tags = []\<rparr>"

definition kernel_image_object :: file_object where
  "kernel_image_object =
     \<lparr>binary = ''hdr'' @ MAGIC_WORD @ ''xyz'', file_name = ustr ''vmlinux'',
      processed_analysis =
        [(ustr ''software_components'',
          [(ustr ''summary'', JArr [JStr (ustr ''BusyBox 1.31''), JStr (ustr ''Linux Kernel 5.4.0'')])])],
      analysis_tags = []\<rparr>"

definition module_object :: file_object where
  "module_object =
     \<lparr>binary = ''wrapped'', file_name = ustr ''configs.ko'', processed_analysis = [],
      analysis_tags = []\<rparr>"

section \<open>Auxiliary notions for the proofs\<close>

text \<open>
  The words a pattern without anchors can read: \<open>sem r L\<close> says that the matches of \<open>r\<close>
  from any state are exactly the splits of the remaining text into a word of \<open>L\<close> and a
  rest, \<open>after\<close> giving the line-start flag behind the word.
\<close>

definition after :: "bool \<Rightarrow> str \<Rightarrow> bool" where
  "after b w = (if w = [] then b else last w = newline)"

definition sem :: "regex \<Rightarrow> str set \<Rightarrow> bool" where
  "sem r L = (\<forall>b xs b' xs'. ((b', xs') \<in> set (rmatch r (b, xs))) = (\<exists>w\<in>L. xs = w @ xs' \<and> b' = after b w))"

definition conc :: "str set \<Rightarrow> str set \<Rightarrow> str set" where
  "conc A B = {u @ v | u v. u \<in> A \<and> v \<in> B}"

definition nlfree :: "str set \<Rightarrow> bool" where
  "nlfree L = (\<forall>w\<in>L. newline \<notin> set w)"

definition eol_ok :: "str \<Rightarrow> bool" where
  "eol_ok xs = (case xs of [] \<Rightarrow> True | c # _ \<Rightarrow> c = newline)"

definition banner_lang :: "str set" where
  "banner_lang =
     conc {ustr ''# Linux''} (conc {w. list_all dot w} {ustr '' Kernel Configuration''})"

definition value_lang :: "(nat \<Rightarrow> bool) \<Rightarrow> str set" where
  "value_lang ud = {w. w \<noteq> [] \<and> list_all (digit_char ud) w} \<union> {[c] | c. ymn c}"

definition tail_lang :: "(nat \<Rightarrow> bool) \<Rightarrow> (nat \<Rightarrow> bool) \<Rightarrow> str set" where
  "tail_lang uw ud =
     conc {w. w \<noteq> [] \<and> list_all (word_char uw) w} (conc {ustr ''=''} (value_lang ud))"

definition directive_lang :: "(nat \<Rightarrow> bool) \<Rightarrow> (nat \<Rightarrow> bool) \<Rightarrow> str set" where
  "directive_lang uw ud =
     conc ({ustr ''CONFIG''} \<union> {ustr ''# CONFIG''}) (conc {ustr ''_''} (tail_lang uw ud))"

text \<open>
  The two result records \<open>process_object\<close> can leave, and how a verdict is completed by the
  summary and the audit. \<open>gate\<close> is the condition of the \<open>elif\<close>, evaluated as the code does:
  not at all when the first branch is taken, and without looking at the components when
  the file name already decides.
\<close>

definition found_record :: "file_object \<Rightarrow> str \<Rightarrow> json \<Rightarrow> file_object" where
  "found_record fo t report =
     fo\<lparr>processed_analysis :=
          AList.update NAME
            [(ustr ''is_kernel_config'', JBool True), (ustr ''kernel_config'', JStr t),
             (ustr ''summary'', JArr [JStr (ustr ''Kernel Config'')]),
             (ustr ''checksec'', report)]
            (processed_analysis fo),
        analysis_tags :=
          analysis_tags fo @ [(ustr ''IKCONFIG'', ustr ''Kernel Configuration'')]\<rparr>"

definition not_found_record :: "file_object \<Rightarrow> file_object" where
  "not_found_record fo =
     fo\<lparr>processed_analysis :=
          AList.update NAME [(ustr ''summary'', JArr [])] (processed_analysis fo)\<rparr>"

fun complete :: "platform \<Rightarrow> file_object \<Rightarrow> verdict \<Rightarrow> py_error + file_object" where
  "complete P fo NotAConfig = Inr (not_found_record fo)"
| "complete P fo (Found t) =
     (case check_kernel_config P t of
        Inl e \<Rightarrow> Inl e
      | Inr report \<Rightarrow> Inr (found_record fo t report))"

definition gate :: "platform \<Rightarrow> file_object \<Rightarrow> py_error + bool" where
  "gate P fo =
     (if object_mime_is_plaintext fo \<and> classify P (binary fo) then Inr False
      else if file_name fo = ustr ''configs.ko'' then Inr True
      else object_is_kernel_image P fo)"

definition policy_with :: "platform \<Rightarrow> file_object \<Rightarrow> bool \<Rightarrow> verdict" where
  "policy_with P fo kernel_image =
     (if object_mime_is_plaintext fo \<and> classify P (binary fo) then as_text (binary fo)
      else if file_name fo = ustr ''configs.ko'' \<or> kernel_image then
        let result = try_object_extract_ikconfig (decompress P) (binary fo)
        in if classify P result then as_text result else NotAConfig
      else NotAConfig)"

definition finish :: "platform \<Rightarrow> py_error + file_object \<Rightarrow> py_error + file_object" where
  "finish P r =
     (case r of
        Inl e \<Rightarrow> Inl e
      | Inr fo1 \<Rightarrow> (case add_summary fo1 of Inl e \<Rightarrow> Inl e | Inr fo2 \<Rightarrow> add_checksec P fo2))"

section \<open>The classifier\<close>

lemma after_append: "after (after b u) v = after b (u @ v)"
  by (simp add: after_def)

lemma after_Nil [simp]: "after b [] = b"
  by (simp add: after_def)

lemma after_Cons [simp]: "after b (c # w) = after (c = newline) w"
  by (simp add: after_def)

lemma consume_sem:
  "((b', xs') \<in> set (consume l (b, xs))) = (xs = l @ xs' \<and> b' = after b l)"
proof (induction l arbitrary: b xs)
  case Nil
  show ?case by auto
next
  case (Cons c cs)
  show ?case
  proof (cases xs)
    case Nil
    then show ?thesis by simp
  next
    case (Cons x xs2)
    show ?thesis
    proof (cases "c = x")
      case True
      then show ?thesis using Cons.IH [of "x = newline" xs2] Cons by simp
    next
      case False
      then show ?thesis using Cons by simp
    qed
  qed
qed

lemma sem_Lit: "sem (Lit l) {l}"
  by (simp add: sem_def consume_sem)

lemma sem_Cls: "sem (Cls p) {[c] | c. p c}"
  unfolding sem_def
proof (intro allI)
  fix b xs b' xs'
  show "((b', xs') \<in> set (rmatch (Cls p) (b, xs))) =
        (\<exists>w\<in>{[c] | c. p c}. xs = w @ xs' \<and> b' = after b w)"
  proof (cases xs)
    case Nil
    then show ?thesis by simp
  next
    case (Cons x xs2)
    have "(\<exists>w\<in>{[c] | c. p c}. xs = w @ xs' \<and> b' = after b w) =
          (\<exists>c. p c \<and> xs = [c] @ xs' \<and> b' = after b [c])"
      by blast
    also have "\<dots> = (p x \<and> xs2 = xs' \<and> b' = (x = newline))"
      using Cons by auto
    finally show ?thesis using Cons by auto
  qed
qed

lemma concI: "u \<in> A \<Longrightarrow> v \<in> B \<Longrightarrow> u @ v \<in> conc A B"
  unfolding conc_def by blast

lemma concE: "w \<in> conc A B \<Longrightarrow> (\<And>u v. w = u @ v \<Longrightarrow> u \<in> A \<Longrightarrow> v \<in> B \<Longrightarrow> P) \<Longrightarrow> P"
  unfolding conc_def by blast

lemma sem_Seq:
  assumes "sem r1 L1" and "sem r2 L2"
  shows "sem (Seq r1 r2) (conc L1 L2)"
  unfolding sem_def
proof (intro allI)
  fix b xs b' xs'
  have "((b', xs') \<in> set (rmatch (Seq r1 r2) (b, xs))) =
        (\<exists>b1 x1. (b1, x1) \<in> set (rmatch r1 (b, xs)) \<and> (b', xs') \<in> set (rmatch r2 (b1, x1)))"
    by auto
  also have "\<dots> = (\<exists>b1 x1. (\<exists>u\<in>L1. xs = u @ x1 \<and> b1 = after b u) \<and> (\<exists>v\<in>L2. x1 = v @ xs' \<and> b' = after b1 v))"
    using assms unfolding sem_def by simp
  also have "\<dots> = (\<exists>w\<in>conc L1 L2. xs = w @ xs' \<and> b' = after b w)"
    (is "?L = ?R")
  proof
    assume ?L
    then obtain u v where uv: "u \<in> L1" "v \<in> L2" "xs = u @ v @ xs'" "b' = after (after b u) v"
      by blast
    show ?R
    proof (rule bexI [of _ "u @ v"])
      show "xs = (u @ v) @ xs' \<and> b' = after b (u @ v)" using uv by (simp add: after_append)
      show "u @ v \<in> conc L1 L2" using uv by (simp add: concI)
    qed
  next
    assume ?R
    then obtain w where w: "w \<in> conc L1 L2" "xs = w @ xs'" "b' = after b w" by blast
    from w(1) obtain u v where uv: "w = u @ v" "u \<in> L1" "v \<in> L2" by (rule concE)
    have "(\<exists>u'\<in>L1. xs = u' @ (v @ xs') \<and> after b u = after b u') \<and>
          (\<exists>v'\<in>L2. v @ xs' = v' @ xs' \<and> b' = after (after b u) v')"
      using uv w by (auto simp: after_append)
    then show ?L by blast
  qed
  finally show "((b', xs') \<in> set (rmatch (Seq r1 r2) (b, xs))) =
     (\<exists>w\<in>conc L1 L2. xs = w @ xs' \<and> b' = after b w)" .
qed

lemma sem_Alt:
  assumes "sem r1 L1" and "sem r2 L2"
  shows "sem (Alt r1 r2) (L1 \<union> L2)"
  using assms unfolding sem_def by auto

lemma star_cls:
  "length xs \<le> n \<Longrightarrow>
   ((b', xs') \<in> set (star_iter (rmatch (Cls p)) n (b, xs))) =
   (\<exists>w. xs = w @ xs' \<and> list_all p w \<and> b' = after b w)"
proof (induction xs arbitrary: n b)
  case Nil
  then show ?case by (cases n) auto
next
  case (Cons c cs)
  then obtain m where n: "n = Suc m" and m: "length cs \<le> m" by (cases n) auto
  have ih: "((b', xs') \<in> set (star_iter (rmatch (Cls p)) m (c = newline, cs))) =
   (\<exists>w. cs = w @ xs' \<and> list_all p w \<and> b' = after (c = newline) w)"
    using Cons.IH [OF m] .
  have split: "(\<exists>w. c # cs = w @ xs' \<and> list_all p w \<and> b' = after b w) =
     ((b', xs') = (b, c # cs) \<or>
      (p c \<and> (\<exists>w. cs = w @ xs' \<and> list_all p w \<and> b' = after (c = newline) w)))"
    (is "?L = ?R")
  proof
    assume ?L
    then obtain w where w: "c # cs = w @ xs'" "list_all p w" "b' = after b w" by blast
    show ?R
    proof (cases w)
      case Nil
      then show ?thesis using w by simp
    next
      case (Cons d w2)
      then have "p c \<and> cs = w2 @ xs' \<and> list_all p w2 \<and> b' = after (c = newline) w2"
        using w by simp
      then show ?thesis by blast
    qed
  next
    assume ?R
    then show ?L
    proof
      assume "(b', xs') = (b, c # cs)"
      then have "c # cs = [] @ xs' \<and> list_all p [] \<and> b' = after b []" by simp
      then show ?L by blast
    next
      assume "p c \<and> (\<exists>w. cs = w @ xs' \<and> list_all p w \<and> b' = after (c = newline) w)"
      then obtain w where "p c" "cs = w @ xs'" "list_all p w" "b' = after (c = newline) w"
        by blast
      then have "c # cs = (c # w) @ xs' \<and> list_all p (c # w) \<and> b' = after b (c # w)"
        by simp
      then show ?L by blast
    qed
  qed
  have "((b', xs') \<in> set (star_iter (rmatch (Cls p)) n (b, c # cs))) =
        ((b', xs') = (b, c # cs) \<or>
         (p c \<and> (b', xs') \<in> set (star_iter (rmatch (Cls p)) m (c = newline, cs))))"
    by (simp add: n)
  then show ?case unfolding split ih .
qed

lemma sem_Star_Cls: "sem (Star (Cls p)) {w. list_all p w}"
  unfolding sem_def
proof (intro allI)
  fix b xs b' xs'
  have "((b', xs') \<in> set (rmatch (Star (Cls p)) (b, xs))) =
        (\<exists>w. xs = w @ xs' \<and> list_all p w \<and> b' = after b w)"
    using star_cls [of xs "length xs" b' xs' p b] by simp
  then show "((b', xs') \<in> set (rmatch (Star (Cls p)) (b, xs))) =
        (\<exists>w\<in>{w. list_all p w}. xs = w @ xs' \<and> b' = after b w)"
    by blast
qed

lemma sem_Plus_Cls: "sem (Plus (Cls p)) {w. w \<noteq> [] \<and> list_all p w}"
proof -
  have "sem (Plus (Cls p)) (conc {[c] | c. p c} {w. list_all p w})"
    unfolding Plus_def by (rule sem_Seq [OF sem_Cls sem_Star_Cls])
  moreover have "conc {[c] | c. p c} {w. list_all p w} = {w. w \<noteq> [] \<and> list_all p w}"
  proof (intro set_eqI iffI)
    fix x assume "x \<in> {w. w \<noteq> [] \<and> list_all p w}"
    then obtain a l where x: "x = [a] @ l" "p a" "list_all p l" by (cases x) auto
    show "x \<in> conc {[c] | c. p c} {w. list_all p w}"
      unfolding x(1) using x(2,3) by (intro concI) auto
  next
    fix x assume "x \<in> conc {[c] | c. p c} {w. list_all p w}"
    then show "x \<in> {w. w \<noteq> [] \<and> list_all p w}" by (elim concE) auto
  qed
  ultimately show ?thesis by simp
qed

lemma first_line_unique:
  assumes "newline \<notin> set w" and "xs = w @ x1" and "eol_ok x1"
  shows "takeWhile dot xs = w"
proof -
  have "takeWhile dot x1 = []" using assms(3) by (cases x1) (auto simp: eol_ok_def dot_def)
  moreover have "\<And>x. x \<in> set w \<Longrightarrow> dot x" using assms(1) by (auto simp: dot_def)
  ultimately show ?thesis unfolding assms(2) by simp
qed

lemma first_line_rest: "eol_ok (dropWhile dot xs)"
proof (cases "dropWhile dot xs")
  case Nil
  show ?thesis unfolding Nil eol_ok_def by simp
next
  case (Cons c cs)
  then have "\<not> dot c" using hd_dropWhile [of dot xs] by simp
  then show ?thesis unfolding Cons eol_ok_def by (simp add: dot_def)
qed

lemma bex_pair: "(\<exists>s\<in>A. P s) = (\<exists>a b. (a, b) \<in> A \<and> P (a, b))"
  by auto

lemma rmatch_Eol_ne: "(rmatch Eol (b, xs) \<noteq> []) = eol_ok xs"
  by (cases xs) (simp_all add: eol_ok_def)

lemma anchored_match:
  assumes "sem body L" and "nlfree L"
  shows "(rmatch (Seq Bol (Seq body Eol)) (b, xs) \<noteq> []) = (b \<and> takeWhile dot xs \<in> L)"
proof -
  have "(rmatch (Seq body Eol) (b, xs) \<noteq> []) =
        (\<exists>b1 x1. (b1, x1) \<in> set (rmatch body (b, xs)) \<and> eol_ok x1)"
  proof -
    have "(rmatch (Seq body Eol) (b, xs) \<noteq> []) =
          (\<exists>s\<in>set (rmatch body (b, xs)). rmatch Eol s \<noteq> [])"
      by (simp del: rmatch.simps(2) add: concat_eq_Nil_conv)
    also have "\<dots> = (\<exists>b1 x1. (b1, x1) \<in> set (rmatch body (b, xs)) \<and> rmatch Eol (b1, x1) \<noteq> [])"
      by (rule bex_pair)
    also have "\<dots> = (\<exists>b1 x1. (b1, x1) \<in> set (rmatch body (b, xs)) \<and> eol_ok x1)"
      by (simp only: rmatch_Eol_ne)
    finally show ?thesis .
  qed
  also have "\<dots> = (\<exists>w\<in>L. \<exists>x1. xs = w @ x1 \<and> eol_ok x1)"
    using assms(1) unfolding sem_def by blast
  also have "\<dots> = (takeWhile dot xs \<in> L)" (is "?A = ?B")
  proof
    assume ?A
    then obtain w x1 where w: "w \<in> L" "xs = w @ x1" "eol_ok x1" by blast
    then have "newline \<notin> set w" using assms(2) by (simp add: nlfree_def)
    then have "takeWhile dot xs = w" using w(2,3) by (rule first_line_unique)
    then show ?B using w by simp
  next
    assume ?B
    moreover have "xs = takeWhile dot xs @ dropWhile dot xs" by simp
    ultimately show ?A using first_line_rest by blast
  qed
  finally have body: "(rmatch (Seq body Eol) (b, xs) \<noteq> []) = (takeWhile dot xs \<in> L)" .
  have bol: "rmatch (Seq Bol (Seq body Eol)) (b, xs) =
        (if b then rmatch (Seq body Eol) (b, xs) else [])"
    by simp
  show ?thesis unfolding bol using body by (cases b) (simp_all del: rmatch.simps)
qed

lemma split_nl_nonempty: "split_nl t \<noteq> []"
  by (induction t) (auto split: list.splits)

lemma hd_split_nl: "hd (split_nl t) = takeWhile dot t"
proof (induction t)
  case Nil
  show ?case by simp
next
  case (Cons c cs)
  then show ?case using split_nl_nonempty [of cs]
    by (cases "split_nl cs") (auto simp: dot_def)
qed

lemma split_nl_Cons:
  "split_nl (c # cs) =
     (if c = newline then [] # split_nl cs else (c # hd (split_nl cs)) # tl (split_nl cs))"
  using split_nl_nonempty [of cs] by (cases "split_nl cs") auto

lemma split_nl_nlfree: "l \<in> set (split_nl t) \<Longrightarrow> newline \<notin> set l"
proof (induction t arbitrary: l)
  case Nil
  then show ?case by simp
next
  case (Cons c cs)
  have ne: "split_nl cs \<noteq> []" by (rule split_nl_nonempty)
  show ?case
  proof (cases "c = newline")
    case True
    then show ?thesis using Cons by auto
  next
    case False
    then have "l = c # hd (split_nl cs) \<or> l \<in> set (tl (split_nl cs))"
      using Cons.prems by (simp del: split_nl.simps add: split_nl_Cons)
    moreover have "hd (split_nl cs) \<in> set (split_nl cs)" using ne by simp
    moreover have "set (tl (split_nl cs)) \<subseteq> set (split_nl cs)" using ne by (cases "split_nl cs") auto
    ultimately show ?thesis using Cons.IH False by auto
  qed
qed

lemma search_lines:
  assumes "sem body L" and "nlfree L"
  shows "search_from (Seq Bol (Seq body Eol)) b t =
         ((b \<and> hd (split_nl t) \<in> L) \<or> (\<exists>l\<in>set (tl (split_nl t)). l \<in> L))"
proof (induction t arbitrary: b)
  case Nil
  show ?case using anchored_match [OF assms, of b "[]"] by simp
next
  case (Cons c cs)
  have ne: "split_nl cs \<noteq> []" by (rule split_nl_nonempty)
  have here: "(rmatch (Seq Bol (Seq body Eol)) (b, c # cs) \<noteq> []) =
              (b \<and> takeWhile dot (c # cs) \<in> L)"
    by (rule anchored_match [OF assms])
  have step: "search_from (Seq Bol (Seq body Eol)) b (c # cs) =
     ((b \<and> takeWhile dot (c # cs) \<in> L) \<or>
      (((c = newline) \<and> hd (split_nl cs) \<in> L) \<or> (\<exists>l\<in>set (tl (split_nl cs)). l \<in> L)))"
    unfolding search_from.simps here Cons.IH [of "c = newline"] by simp
  show ?case
  proof (cases "c = newline")
    case True
    have "(hd (split_nl cs) \<in> L \<or> (\<exists>l\<in>set (tl (split_nl cs)). l \<in> L)) =
          (\<exists>l\<in>set (split_nl cs). l \<in> L)"
      using ne by (cases "split_nl cs") auto
    then show ?thesis using True unfolding step by (simp del: split_nl.simps add: split_nl_Cons dot_def)
  next
    case False
    then show ?thesis unfolding step by (simp del: split_nl.simps add: split_nl_Cons dot_def hd_split_nl)
  qed
qed

lemma findall_lines:
  assumes "sem body L" and "nlfree L"
  shows "findall_nonempty (Seq Bol (Seq body Eol)) t = (\<exists>l\<in>set (split_nl t). l \<in> L)"
proof -
  have "(hd (split_nl t) \<in> L \<or> (\<exists>l\<in>set (tl (split_nl t)). l \<in> L)) =
        (\<exists>l\<in>set (split_nl t). l \<in> L)"
    using split_nl_nonempty [of t] by (cases "split_nl t") auto
  then show ?thesis unfolding findall_nonempty_def search_lines [OF assms] by simp
qed

lemma starts_with_iff: "starts_with p l = (\<exists>r. l = p @ r)"
proof
  assume "starts_with p l"
  then have "l = p @ drop (length p) l"
    unfolding starts_with_def using append_take_drop_id [of "length p" l] by simp
  then show "\<exists>r. l = p @ r" ..
next
  assume "\<exists>r. l = p @ r"
  then show "starts_with p l" unfolding starts_with_def by auto
qed

lemma ends_with_iff: "ends_with p l = (\<exists>r. l = r @ p)"
proof
  assume "ends_with p l"
  then have "l = take (length l - length p) l @ p"
    unfolding ends_with_def using append_take_drop_id [of "length l - length p" l] by simp
  then show "\<exists>r. l = r @ p" ..
next
  assume "\<exists>r. l = r @ p"
  then show "ends_with p l" unfolding ends_with_def by auto
qed

lemma starts_with_drop:
  "(starts_with p l \<and> P (drop (length p) l)) = (\<exists>r. l = p @ r \<and> P r)"
proof
  assume a: "starts_with p l \<and> P (drop (length p) l)"
  then have "l = p @ drop (length p) l"
    unfolding starts_with_def using append_take_drop_id [of "length p" l] by simp
  then show "\<exists>r. l = p @ r \<and> P r" using a by blast
next
  assume "\<exists>r. l = p @ r \<and> P r"
  then show "starts_with p l \<and> P (drop (length p) l)" unfolding starts_with_def by auto
qed

lemma sem_kernel_body: "sem kernel_body banner_lang"
  unfolding kernel_body_def banner_lang_def
  by (intro sem_Seq sem_Lit sem_Star_Cls)

lemma banner_lang_iff:
  "(w \<in> banner_lang) =
   (\<exists>x. list_all dot x \<and> w = ustr ''# Linux'' @ x @ ustr '' Kernel Configuration'')"
  unfolding banner_lang_def conc_def by blast

lemma nlfree_banner_lang: "nlfree banner_lang"
  unfolding nlfree_def
proof
  fix w assume "w \<in> banner_lang"
  then obtain x where "list_all dot x" "w = ustr ''# Linux'' @ x @ ustr '' Kernel Configuration''"
    unfolding banner_lang_iff by blast
  then show "newline \<notin> set w"
    by (auto simp: ustr_def newline_def dot_def list_all_iff)
qed

lemma banner_lang_line:
  assumes "newline \<notin> set l"
  shows "(l \<in> banner_lang) = banner_line l"
proof -
  have len: "length (ustr ''# Linux'') = 7" by (simp add: ustr_def)
  have "banner_line l =
        (\<exists>r. l = ustr ''# Linux'' @ r \<and> ends_with (ustr '' Kernel Configuration'') r)"
    using starts_with_drop [of "ustr ''# Linux''" l "ends_with (ustr '' Kernel Configuration'')"]
    by (simp add: len banner_line_def)
  also have "\<dots> = (\<exists>x. l = ustr ''# Linux'' @ x @ ustr '' Kernel Configuration'')"
    unfolding ends_with_iff by blast
  also have "\<dots> = (\<exists>x. list_all dot x \<and> l = ustr ''# Linux'' @ x @ ustr '' Kernel Configuration'')"
    using assms by (auto simp: list_all_iff dot_def)
  also have "\<dots> = (l \<in> banner_lang)"
    unfolding banner_lang_iff ..
  finally show ?thesis by simp
qed

lemma banner_findall:
  "findall_nonempty kernel_pattern content = list_ex banner_line (split_nl content)"
proof -
  have "findall_nonempty kernel_pattern content = (\<exists>l\<in>set (split_nl content). l \<in> banner_lang)"
    unfolding kernel_pattern_def by (rule findall_lines [OF sem_kernel_body nlfree_banner_lang])
  also have "\<dots> = (\<exists>l\<in>set (split_nl content). banner_line l)"
    using banner_lang_line split_nl_nlfree by blast
  finally show ?thesis by (simp add: list_ex_iff)
qed

lemma sem_config_body: "sem (config_body uw ud) (directive_lang uw ud)"
  unfolding config_body_def directive_lang_def tail_lang_def value_lang_def
  by (intro sem_Seq sem_Alt sem_Lit sem_Plus_Cls sem_Cls)

lemma value_lang_iff: "(v \<in> value_lang ud) = directive_value ud v"
  unfolding value_lang_def directive_value_def ymn_def ustr_def by auto

lemma not_word_equals: "\<not> word_char uw 61"
  by (simp add: word_char_def ascii_word_def ascii_digit_def)

lemma tail_lang_iff:
  "(r \<in> tail_lang uw ud) =
   (\<exists>name v. name \<noteq> [] \<and> list_all (word_char uw) name \<and> directive_value ud v \<and>
      r = name @ 61 # v)"
proof -
  have eq: "ustr ''='' = [61]" by (simp add: ustr_def)
  show ?thesis unfolding tail_lang_def conc_def eq value_lang_iff [symmetric] by auto
qed

lemma tail_lang_tail: "(r \<in> tail_lang uw ud) = directive_tail uw ud r"
proof
  assume "r \<in> tail_lang uw ud"
  then obtain name v where nv: "name \<noteq> []" "list_all (word_char uw) name"
      "directive_value ud v" "r = name @ 61 # v"
    unfolding tail_lang_iff by blast
  have all: "\<forall>x\<in>set name. word_char uw x" using nv(2) by (simp add: list_all_iff)
  have "takeWhile (word_char uw) r = takeWhile (word_char uw) name"
    unfolding nv(4) using not_word_equals by (rule takeWhile_tail)
  then have t: "takeWhile (word_char uw) r = name" using all by simp
  have "dropWhile (word_char uw) r = dropWhile (word_char uw) name @ 61 # v"
    unfolding nv(4) using not_word_equals by (rule dropWhile_append3)
  then have d: "dropWhile (word_char uw) r = 61 # v" using all by simp
  show "directive_tail uw ud r" unfolding directive_tail_def t d using nv(1,3) by simp
next
  assume a: "directive_tail uw ud r"
  then obtain v where d: "dropWhile (word_char uw) r = 61 # v" and v: "directive_value ud v"
    unfolding directive_tail_def by (cases "dropWhile (word_char uw) r") auto
  have ne: "takeWhile (word_char uw) r \<noteq> []" using a unfolding directive_tail_def by simp
  have "r = takeWhile (word_char uw) r @ dropWhile (word_char uw) r" by simp
  then have r: "r = takeWhile (word_char uw) r @ 61 # v" unfolding d .
  have "list_all (word_char uw) (takeWhile (word_char uw) r)"
    unfolding list_all_iff using set_takeWhileD by fast
  then show "r \<in> tail_lang uw ud" unfolding tail_lang_iff using ne v r by blast
qed

lemma directive_lang_line: "(l \<in> directive_lang uw ud) = directive_line uw ud l"
proof -
  have c1: "ustr ''CONFIG'' @ ustr ''_'' @ r = ustr ''CONFIG_'' @ r" for r
    by (simp add: ustr_def)
  have c2: "ustr ''# CONFIG'' @ ustr ''_'' @ r = ustr ''# CONFIG_'' @ r" for r
    by (simp add: ustr_def)
  have l1: "length (ustr ''CONFIG_'') = 7" and l2: "length (ustr ''# CONFIG_'') = 9"
    by (simp_all add: ustr_def)
  have "(l \<in> directive_lang uw ud) =
        ((\<exists>r. l = ustr ''CONFIG'' @ ustr ''_'' @ r \<and> r \<in> tail_lang uw ud) \<or>
         (\<exists>r. l = ustr ''# CONFIG'' @ ustr ''_'' @ r \<and> r \<in> tail_lang uw ud))"
    unfolding directive_lang_def conc_def by blast
  also have "\<dots> =
        ((\<exists>r. l = ustr ''CONFIG_'' @ r \<and> directive_tail uw ud r) \<or>
         (\<exists>r. l = ustr ''# CONFIG_'' @ r \<and> directive_tail uw ud r))"
    unfolding c1 c2 tail_lang_tail ..
  also have "\<dots> = directive_line uw ud l"
    using starts_with_drop [of "ustr ''CONFIG_''" l "directive_tail uw ud"]
          starts_with_drop [of "ustr ''# CONFIG_''" l "directive_tail uw ud"]
    by (simp add: l1 l2 directive_line_def)
  finally show ?thesis .
qed

lemma nlfree_directive_lang: "nlfree (directive_lang uw ud)"
  unfolding nlfree_def
proof
  fix w assume "w \<in> directive_lang uw ud"
  then have dl: "directive_line uw ud w" by (simp add: directive_lang_line)
  have nw: "\<not> word_char uw newline"
    by (simp add: word_char_def ascii_word_def ascii_digit_def newline_def)
  have nd: "\<not> digit_char ud newline"
    by (simp add: digit_char_def ascii_digit_def newline_def)
  have val: "newline \<notin> set v" if "directive_value ud v" for v
    using that nd unfolding directive_value_def by (auto simp: ustr_def newline_def list_all_iff)
  have tl: "newline \<notin> set r" if "r \<in> tail_lang uw ud" for r
  proof -
    from that obtain name v where nv: "list_all (word_char uw) name" "directive_value ud v"
        "r = name @ 61 # v"
      unfolding tail_lang_iff by blast
    have "newline \<notin> set name" using nv(1) nw by (auto simp: list_all_iff)
    then show ?thesis unfolding nv(3) using val [OF nv(2)] by (simp add: newline_def)
  qed
  from \<open>w \<in> directive_lang uw ud\<close>
  obtain p r where "w = p @ ustr ''_'' @ r" "p = ustr ''CONFIG'' \<or> p = ustr ''# CONFIG''"
      "r \<in> tail_lang uw ud"
    unfolding directive_lang_def conc_def by blast
  then show "newline \<notin> set w" using tl by (auto simp: ustr_def newline_def)
qed

lemma directive_findall:
  "findall_nonempty (config_pattern uw ud) content =
   list_ex (directive_line uw ud) (split_nl content)"
proof -
  have "findall_nonempty (config_pattern uw ud) content =
        (\<exists>l\<in>set (split_nl content). l \<in> directive_lang uw ud)"
    unfolding config_pattern_def by (rule findall_lines [OF sem_config_body nlfree_directive_lang])
  then show ?thesis by (simp add: list_ex_iff directive_lang_line)
qed

text \<open>The two line predicates, in the words of the patterns.\<close>

lemma banner_line_words:
  "banner_line l = (\<exists>x. l = ustr ''# Linux'' @ x @ ustr '' Kernel Configuration'')"
proof -
  have len: "length (ustr ''# Linux'') = 7" by (simp add: ustr_def)
  have "banner_line l =
        (\<exists>r. l = ustr ''# Linux'' @ r \<and> ends_with (ustr '' Kernel Configuration'') r)"
    using starts_with_drop [of "ustr ''# Linux''" l "ends_with (ustr '' Kernel Configuration'')"]
    by (simp add: len banner_line_def)
  then show ?thesis unfolding ends_with_iff by blast
qed

lemma directive_line_words:
  "directive_line uw ud l =
   (\<exists>pre name v.
      (pre = ustr ''CONFIG'' \<or> pre = ustr ''# CONFIG'') \<and>
      name \<noteq> [] \<and> list_all (word_char uw) name \<and>
      (v = ustr ''y'' \<or> v = ustr ''m'' \<or> v = ustr ''n'' \<or>
       (v \<noteq> [] \<and> list_all (digit_char ud) v)) \<and>
      l = pre @ ustr ''_'' @ name @ ustr ''='' @ v)"
proof -
  have eq: "ustr ''='' = [61]" by (simp add: ustr_def)
  have "directive_line uw ud l =
        (\<exists>pre r. (pre = ustr ''CONFIG'' \<or> pre = ustr ''# CONFIG'') \<and>
           r \<in> tail_lang uw ud \<and> l = pre @ ustr ''_'' @ r)"
    unfolding directive_lang_line [symmetric] directive_lang_def conc_def by blast
  also have "\<dots> =
        (\<exists>pre name v. (pre = ustr ''CONFIG'' \<or> pre = ustr ''# CONFIG'') \<and>
           name \<noteq> [] \<and> list_all (word_char uw) name \<and> directive_value ud v \<and>
           l = pre @ ustr ''_'' @ name @ ustr ''='' @ v)"
    unfolding tail_lang_iff eq by auto
  finally show ?thesis unfolding directive_value_def .
qed

lemma probably_kernel_config_lines:
  "probably_kernel_config uw ud raw = looks_like_kernel_config uw ud raw"
  unfolding probably_kernel_config_def looks_like_kernel_config_def
  by (simp add: banner_findall directive_findall split: option.split)

text \<open>
  Claim C2. The classifier \<open>probably_kernel_config\<close> (\<open>looks_like_kernel_config\<close> in the
  specification) returns true iff the buffer decodes as UTF-8 and the decoded text has
  at least one banner line and at least one directive line, lines being those of
  multiline matching. In particular a buffer that does not decode yields false, and so
  does a text with no banner line or with no directive line.
\<close>

theorem classifier_iff_banner_and_directive:
  "probably_kernel_config uw ud raw = looks_like_kernel_config uw ud raw \<and>
   (probably_kernel_config uw ud raw \<longleftrightarrow>
      (\<exists>content. decode raw = Some content \<and>
         (\<exists>l\<in>set (split_nl content). banner_line l) \<and>
         (\<exists>l\<in>set (split_nl content). directive_line uw ud l))) \<and>
   (decode raw = None \<longrightarrow> \<not> probably_kernel_config uw ud raw) \<and>
   (\<forall>content. decode raw = Some content \<and>
      (\<not> list_ex banner_line (split_nl content) \<or>
       \<not> list_ex (directive_line uw ud) (split_nl content)) \<longrightarrow>
      \<not> probably_kernel_config uw ud raw)"
proof -
  have eq: "probably_kernel_config uw ud raw = looks_like_kernel_config uw ud raw"
    by (rule probably_kernel_config_lines)
  show ?thesis unfolding eq
    by (cases "decode raw") (simp_all add: looks_like_kernel_config_def list_ex_iff)
qed

theorem classifier_iff_banner_and_directive_witness:
  "probably_kernel_config ascii_only ascii_only example_config \<and>
   \<not> probably_kernel_config ascii_only ascii_only banner_only \<and>
   \<not> probably_kernel_config ascii_only ascii_only directives_only \<and>
   \<not> probably_kernel_config ascii_only ascii_only not_utf8"
proof -
  have a: "looks_like_kernel_config ascii_only ascii_only example_config"
    by code_simp
  have b: "decode banner_only = Some (map of_char banner_only)"
    by code_simp
  have b': "\<not> list_ex (directive_line ascii_only ascii_only) (split_nl (map of_char banner_only))"
    by code_simp
  have c: "decode directives_only = Some (map of_char directives_only)"
    by code_simp
  have c': "\<not> list_ex banner_line (split_nl (map of_char directives_only))"
    by code_simp
  have d: "decode not_utf8 = None"
    by code_simp
  show ?thesis
    using classifier_iff_banner_and_directive [of ascii_only ascii_only example_config]
      classifier_iff_banner_and_directive [of ascii_only ascii_only banner_only]
      classifier_iff_banner_and_directive [of ascii_only ascii_only directives_only]
      classifier_iff_banner_and_directive [of ascii_only ascii_only not_utf8]
      a b b' c c' d
    by blast
qed

lemma starts_with_map: "starts_with p l \<Longrightarrow> starts_with (map f p) (map f l)"
  unfolding starts_with_def by (metis length_map take_map)

lemma ends_with_map: "ends_with p l \<Longrightarrow> ends_with (map f p) (map f l)"
  unfolding ends_with_def by (metis length_map drop_map)

lemma banner_line_nocaseI:
  assumes "banner_line l"
  shows "banner_line_nocase l"
proof -
  have "ends_with (map ascii_lower (ustr '' Kernel Configuration'')) (map ascii_lower (drop 7 l))"
    using assms unfolding banner_line_def by (simp add: ends_with_map)
  then have "ends_with (map ascii_lower (ustr '' Kernel Configuration'')) (drop 7 (map ascii_lower l))"
    by (simp only: drop_map)
  moreover have "starts_with (map ascii_lower (ustr ''# Linux'')) (map ascii_lower l)"
    using assms unfolding banner_line_def by (simp add: starts_with_map)
  ultimately show ?thesis unfolding banner_line_nocase_def lowered_def by simp
qed

lemma directive_line_prefix:
  assumes "directive_line uw ud l"
  shows "config_prefix_nocase l \<and> \<not> lowercase_config_prefix l"
proof -
  from assms have p: "starts_with (ustr ''CONFIG_'') l \<or> starts_with (ustr ''# CONFIG_'') l"
    unfolding directive_line_def by blast
  then have "config_prefix_nocase l"
    unfolding config_prefix_nocase_def lowered_def using starts_with_map by blast
  moreover have "\<not> lowercase_config_prefix l"
  proof
    assume "lowercase_config_prefix l"
    then consider r where "l = ustr ''config_'' @ r" | r where "l = ustr ''# config_'' @ r"
      unfolding lowercase_config_prefix_def starts_with_iff by blast
    then show False
    proof cases
      case 1
      then show ?thesis using p unfolding starts_with_iff by (auto simp: ustr_def)
    next
      case 2
      then show ?thesis using p unfolding starts_with_iff by (auto simp: ustr_def)
    qed
  qed
  ultimately show ?thesis ..
qed

text \<open>
  Claim C9. Banner and directive matching is case-sensitive: a text in which every line
  that is a banner up to letter case differs from the canonical casing, or in which
  every line with a \<open>CONFIG_\<close> prefix up to letter case has that prefix in lower case,
  is rejected, also where the same text in canonical casing is accepted.
\<close>

theorem classifier_case_sensitive:
  assumes "decode raw = Some content"
    and "(\<forall>l\<in>set (split_nl content). banner_line_nocase l \<longrightarrow> \<not> banner_line l) \<or>
         (\<forall>l\<in>set (split_nl content). config_prefix_nocase l \<longrightarrow> lowercase_config_prefix l)"
  shows "\<not> probably_kernel_config uw ud raw"
proof -
  have "\<not> list_ex banner_line (split_nl content) \<or>
        \<not> list_ex (directive_line uw ud) (split_nl content)"
    using assms(2) banner_line_nocaseI directive_line_prefix unfolding list_ex_iff by blast
  then show ?thesis
    unfolding probably_kernel_config_lines looks_like_kernel_config_def using assms(1) by auto
qed

theorem classifier_case_sensitive_witness:
  "\<not> probably_kernel_config ascii_only ascii_only lowercase_banner \<and>
   \<not> probably_kernel_config ascii_only ascii_only lowercase_directive \<and>
   probably_kernel_config ascii_only ascii_only canonical_casing \<and>
   list_ex banner_line_nocase (split_nl (map of_char lowercase_banner)) \<and>
   list_ex config_prefix_nocase (split_nl (map of_char lowercase_directive))"
proof -
  have a: "decode lowercase_banner = Some (map of_char lowercase_banner)"
    by code_simp
  have a': "\<forall>l\<in>set (split_nl (map of_char lowercase_banner)). banner_line_nocase l \<longrightarrow> \<not> banner_line l"
    by code_simp
  have b: "decode lowercase_directive = Some (map of_char lowercase_directive)"
    by code_simp
  have b': "\<forall>l\<in>set (split_nl (map of_char lowercase_directive)).
              config_prefix_nocase l \<longrightarrow> lowercase_config_prefix l"
    by code_simp
  have c: "probably_kernel_config ascii_only ascii_only canonical_casing"
    by code_simp
  have d: "list_ex banner_line_nocase (split_nl (map of_char lowercase_banner))"
    by code_simp
  have e: "list_ex config_prefix_nocase (split_nl (map of_char lowercase_directive))"
    by code_simp
  show ?thesis
    using classifier_case_sensitive [OF a, of ascii_only ascii_only] a'
      classifier_case_sensitive [OF b, of ascii_only ascii_only] b' c d e
    by blast
qed

section \<open>The decompression cascade\<close>

lemma find_map_option:
  "List.find P (map f xs) = map_option f (List.find (\<lambda>x. P (f x)) xs)"
  by (induction xs) simp_all

lemma find_from_locate:
  "find_from xs sub k = (case locate xs sub of None \<Rightarrow> - 1 | Some i \<Rightarrow> k + int i)"
proof (induction xs arbitrary: k)
  case Nil
  show ?case by (auto simp: locate_def)
next
  case (Cons x xs)
  have upt: "[0..<Suc (length (x # xs))] = 0 # map Suc [0..<Suc (length xs)]"
    by (simp add: upt_conv_Cons map_Suc_upt del: upt_Suc)
  have loc: "locate (x # xs) sub =
     (if take (length sub) (x # xs) = sub then Some 0 else map_option Suc (locate xs sub))"
    unfolding locate_def upt by (simp add: find_map_option del: upt_Suc)
  show ?case
  proof (cases "take (length sub) (x # xs) = sub")
    case True
    then show ?thesis unfolding loc by simp
  next
    case False
    then show ?thesis unfolding loc using Cons.IH [of "k + 1"]
      by (simp split: option.splits)
  qed
qed

lemma bytes_find_locate:
  "bytes_find raw sub = (case locate raw sub of None \<Rightarrow> - 1 | Some i \<Rightarrow> int i)"
  unfolding bytes_find_def find_from_locate by (simp split: option.splits)

lemma bytes_find_neg: "(bytes_find raw sub < 0) = (locate raw sub = None)"
  unfolding bytes_find_locate by (simp split: option.splits)

lemma extract_from_container_locate:
  "extract_from_container D container =
     (case locate container MAGIC_WORD of
        None \<Rightarrow> []
      | Some offset \<Rightarrow>
          (case first_candidate (D (drop offset container)) of
             None \<Rightarrow> []
           | Some config \<Rightarrow> config))"
proof (cases "locate container MAGIC_WORD")
  case None
  then show ?thesis unfolding extract_from_container_def by (simp add: bytes_find_neg)
next
  case (Some offset)
  then have f: "bytes_find container MAGIC_WORD = int offset"
    by (simp add: bytes_find_locate)
  show ?thesis unfolding extract_from_container_def f Some
    by (cases "D (drop offset container)") (simp_all add: first_candidate_def)
qed

text \<open>
  The scanner of the specification finds the signature iff it occurs, at its first offset.
\<close>

lemma locate_iff_occurs:
  "(locate buffer sub \<noteq> None) = (\<exists>pre post. buffer = pre @ sub @ post)"
proof
  assume "locate buffer sub \<noteq> None"
  then obtain i where "take (length sub) (drop i buffer) = sub"
    unfolding locate_def by (auto simp: find_None_iff)
  then have "buffer = take i buffer @ sub @ drop (length sub) (drop i buffer)"
    by (metis append_take_drop_id)
  then show "\<exists>pre post. buffer = pre @ sub @ post" by blast
next
  assume "\<exists>pre post. buffer = pre @ sub @ post"
  then obtain pre post where b: "buffer = pre @ sub @ post" by blast
  have "length pre \<in> set [0..<Suc (length buffer)]" unfolding b by simp
  moreover have "take (length sub) (drop (length pre) buffer) = sub" unfolding b by simp
  ultimately show "locate buffer sub \<noteq> None"
    unfolding locate_def find_None_iff by blast
qed

lemma locate_first:
  assumes "locate buffer sub = Some i"
  shows "take (length sub) (drop i buffer) = sub \<and>
         (\<forall>j<i. take (length sub) (drop j buffer) \<noteq> sub)"
proof -
  from assms obtain k where k: "k < length [0..<Suc (length buffer)]"
      "take (length sub) (drop i buffer) = sub" "i = [0..<Suc (length buffer)] ! k"
      "\<forall>j<k. take (length sub) (drop ([0..<Suc (length buffer)] ! j) buffer) \<noteq> sub"
    unfolding locate_def find_Some_iff by blast
  have ik: "i = k" using k(1,3) by (simp del: upt_Suc)
  have "take (length sub) (drop j buffer) \<noteq> sub" if "j < i" for j
  proof -
    have "j < k" using that ik by simp
    moreover have "[0..<Suc (length buffer)] ! j = j"
      using \<open>j < k\<close> k(1) by (simp del: upt_Suc)
    ultimately show ?thesis using k(4) by metis
  qed
  then show ?thesis using k(2) by blast
qed

text \<open>
  Claim C3. The decompression cascade \<open>try_object_extract_ikconfig\<close> is the algorithm of
  the specification: the buffer itself is the container when it holds the signature,
  otherwise the first candidate of decompressing it (none: empty result); the container
  is searched for the signature (absent: empty result); the container from the signature
  on is decompressed and the first candidate returned (none: empty result). In
  particular the result is empty when the signature occurs neither in the buffer nor in
  the first candidate of decompressing it.
\<close>

theorem cascade_refines_spec:
  "try_object_extract_ikconfig D raw = extract_embedded_config D raw \<and>
   (locate raw MAGIC_WORD = None \<and>
    (\<forall>c. first_candidate (D raw) = Some c \<longrightarrow> locate c MAGIC_WORD = None) \<longrightarrow>
    try_object_extract_ikconfig D raw = [])"
proof -
  have eq: "try_object_extract_ikconfig D raw = extract_embedded_config D raw"
  proof (cases "locate raw MAGIC_WORD")
    case None
    then show ?thesis
      unfolding try_object_extract_ikconfig_def extract_embedded_config_def
        extract_from_container_locate bytes_find_neg
      by (cases "D raw") (simp_all add: first_candidate_def split: option.splits)
  next
    case (Some offset)
    then show ?thesis
      unfolding try_object_extract_ikconfig_def extract_embedded_config_def
        extract_from_container_locate bytes_find_neg
      by simp
  qed
  show ?thesis unfolding eq extract_embedded_config_def
    by (auto split: option.splits)
qed

theorem cascade_refines_spec_witness:
  "try_object_extract_ikconfig example_decompress ''abc'' = [] \<and>
   first_candidate (example_decompress ''abc'') = Some ''def'' \<and>
   try_object_extract_ikconfig example_decompress (''hdr'' @ MAGIC_WORD @ ''xyz'') = example_config \<and>
   try_object_extract_ikconfig example_decompress ''wrapped'' = example_config"
proof -
  have a: "locate ''abc'' MAGIC_WORD = None" by code_simp
  have b: "first_candidate (example_decompress ''abc'') = Some ''def''" by code_simp
  have c: "locate ''def'' MAGIC_WORD = None" by code_simp
  have d: "extract_embedded_config example_decompress (''hdr'' @ MAGIC_WORD @ ''xyz'') = example_config"
    by code_simp
  have e: "extract_embedded_config example_decompress ''wrapped'' = example_config"
    by code_simp
  have "locate ''abc'' MAGIC_WORD = None \<and>
        (\<forall>c. first_candidate (example_decompress ''abc'') = Some c \<longrightarrow> locate c MAGIC_WORD = None)"
    using a b c by simp
  then have r1: "try_object_extract_ikconfig example_decompress ''abc'' = []"
    using cascade_refines_spec [of example_decompress "''abc''"] by blast
  have r2: "try_object_extract_ikconfig example_decompress (''hdr'' @ MAGIC_WORD @ ''xyz'') =
            example_config"
    using cascade_refines_spec [of example_decompress "''hdr'' @ MAGIC_WORD @ ''xyz''"] d
    by metis
  have r3: "try_object_extract_ikconfig example_decompress ''wrapped'' = example_config"
    using cascade_refines_spec [of example_decompress "''wrapped''"] e by metis
  show ?thesis using r1 b r2 r3 by blast
qed

section \<open>The hardening result filter\<close>

lemma fold_delete_filter:
  "fold (\<lambda>key d. if key \<notin> set wl then AList.delete key d else d) keys d =
   filter (\<lambda>kv. fst kv \<in> set wl \<or> fst kv \<notin> set keys) d"
proof (induction keys arbitrary: d)
  case Nil
  show ?case by simp
next
  case (Cons k ks)
  show ?case
  proof (cases "k \<in> set wl")
    case True
    have "filter (\<lambda>kv. fst kv \<in> set wl \<or> fst kv \<notin> set ks) d =
          filter (\<lambda>kv. fst kv \<in> set wl \<or> fst kv \<notin> set (k # ks)) d"
      using True by (intro filter_cong) auto
    then show ?thesis using True Cons.IH [of d] by simp
  next
    case False
    have "filter (\<lambda>kv. fst kv \<in> set wl \<or> fst kv \<notin> set ks) (AList.delete k d) =
          filter (\<lambda>kv. fst kv \<in> set wl \<or> fst kv \<notin> set (k # ks)) d"
      unfolding AList.delete_eq filter_filter using False
      by (intro filter_cong) (auto simp: case_prod_beta)
    then show ?thesis using False Cons.IH [of "AList.delete k d"] by simp
  qed
qed

lemma filter_dict_filter:
  "filter_dict wl section = filter (\<lambda>kv. fst kv \<in> set wl) section"
proof -
  have "filter (\<lambda>kv. fst kv \<in> set wl \<or> fst kv \<notin> set (map fst section)) section =
        filter (\<lambda>kv. fst kv \<in> set wl) section"
    by (intro filter_cong) auto
  then show ?thesis unfolding filter_dict_def fold_delete_filter .
qed

lemma map_of_filter_keys:
  "map_of (filter (\<lambda>kv. fst kv \<in> A) kvs) k = (if k \<in> A then map_of kvs k else None)"
  by (induction kvs) auto

lemma filter_dict_allowed: "filter_dict wl d = allowed wl d"
  unfolding allowed_def by (rule filter_dict_filter)

lemma sections_distinct: "ustr ''kernel'' \<noteq> ustr ''grsecurity''"
  by (simp add: ustr_def)

lemma whitelist_configs_report:
  assumes "map_of kvs (ustr ''kernel'') = Some (JObj ks)"
    and "map_of kvs (ustr ''grsecurity'') = Some (JObj gs)"
  shows "whitelist_configs (JObj kvs) =
         Inr (JObj (AList.update (ustr ''grsecurity'') (JObj (allowed GRSECURITY_WHITELIST gs))
                     (AList.update (ustr ''kernel'') (JObj (allowed KERNEL_WHITELIST ks)) kvs)))"
proof -
  have g: "map_of (AList.update (ustr ''kernel'') (JObj (allowed KERNEL_WHITELIST ks)) kvs)
             (ustr ''grsecurity'') = Some (JObj gs)"
    using assms(2) sections_distinct by (simp add: update_conv')
  show ?thesis
    unfolding whitelist_configs_def by (simp add: assms(1) g filter_dict_allowed)
qed

lemma whitelist_configs_cases:
  "audit_report r \<Longrightarrow>
   \<exists>kvs ks gs. r = JObj kvs \<and> map_of kvs (ustr ''kernel'') = Some (JObj ks) \<and>
     map_of kvs (ustr ''grsecurity'') = Some (JObj gs)"
proof (cases r)
  case (JObj kvs)
  assume "audit_report r"
  then show ?thesis unfolding audit_report_def JObj
    by (auto split: option.splits json.splits)
qed (simp_all add: audit_report_def)

lemma filtered_lookups:
  assumes "map_of kvs (ustr ''kernel'') = Some (JObj ks)"
    and "map_of kvs (ustr ''grsecurity'') = Some (JObj gs)"
  defines "kvs' \<equiv> AList.update (ustr ''grsecurity'') (JObj (allowed GRSECURITY_WHITELIST gs))
                     (AList.update (ustr ''kernel'') (JObj (allowed KERNEL_WHITELIST ks)) kvs)"
  shows "map_of kvs' (ustr ''kernel'') = Some (JObj (allowed KERNEL_WHITELIST ks))"
    and "map_of kvs' (ustr ''grsecurity'') = Some (JObj (allowed GRSECURITY_WHITELIST gs))"
    and "name \<noteq> ustr ''kernel'' \<Longrightarrow> name \<noteq> ustr ''grsecurity'' \<Longrightarrow> map_of kvs' name = map_of kvs name"
    and "map fst kvs' = map fst kvs"
proof -
  show "map_of kvs' (ustr ''kernel'') = Some (JObj (allowed KERNEL_WHITELIST ks))"
    unfolding kvs'_def using sections_distinct by (simp add: update_conv')
  show "map_of kvs' (ustr ''grsecurity'') = Some (JObj (allowed GRSECURITY_WHITELIST gs))"
    unfolding kvs'_def by (simp add: update_conv')
  show "name \<noteq> ustr ''kernel'' \<Longrightarrow> name \<noteq> ustr ''grsecurity'' \<Longrightarrow> map_of kvs' name = map_of kvs name"
    unfolding kvs'_def by (simp add: update_conv')
  have k: "ustr ''kernel'' \<in> set (map fst kvs)"
    using map_of_SomeD [OF assms(1)] by force
  have g: "ustr ''grsecurity'' \<in> set (map fst kvs)"
    using map_of_SomeD [OF assms(2)] by force
  show "map fst kvs' = map fst kvs"
    unfolding kvs'_def using k g by (simp add: update_keys)
qed

lemma allowed_idem: "allowed wl (allowed wl d) = allowed wl d"
  unfolding allowed_def by simp

lemma map_of_allowed:
  "map_of (allowed wl d) k = (if k \<in> set wl then map_of d k else None)"
  unfolding allowed_def by (rule map_of_filter_keys)

text \<open>
  Claim C4, as amended. For every audit report that has both sections,
  \<open>whitelist_configs\<close> leaves in \<open>kernel\<close> and in \<open>grsecurity\<close> exactly the entries whose key
  is in the section's allow-list. When a section is absent it raises \<open>KeyError\<close>
  (which \<open>check_kernel_config\<close> catches).
\<close>

theorem whitelist_configs_sections:
  "(\<forall>ks gs. map_of kvs (ustr ''kernel'') = Some (JObj ks) \<and>
        map_of kvs (ustr ''grsecurity'') = Some (JObj gs) \<longrightarrow>
      (\<exists>kvs'. whitelist_configs (JObj kvs) = Inr (JObj kvs') \<and>
         map_of kvs' (ustr ''kernel'') = Some (JObj (allowed KERNEL_WHITELIST ks)) \<and>
         map_of kvs' (ustr ''grsecurity'') = Some (JObj (allowed GRSECURITY_WHITELIST gs)) \<and>
         (\<forall>k. map_of (allowed KERNEL_WHITELIST ks) k =
              (if k \<in> set KERNEL_WHITELIST then map_of ks k else None)) \<and>
         (\<forall>k. map_of (allowed GRSECURITY_WHITELIST gs) k =
              (if k \<in> set GRSECURITY_WHITELIST then map_of gs k else None)))) \<and>
   (map_of kvs (ustr ''kernel'') = None \<longrightarrow> whitelist_configs (JObj kvs) = Inl KeyError) \<and>
   (\<forall>ks. map_of kvs (ustr ''kernel'') = Some (JObj ks) \<and>
        map_of kvs (ustr ''grsecurity'') = None \<longrightarrow>
      whitelist_configs (JObj kvs) = Inl KeyError)"
proof (intro conjI allI impI)
  fix ks gs
  assume a: "map_of kvs (ustr ''kernel'') = Some (JObj ks) \<and>
             map_of kvs (ustr ''grsecurity'') = Some (JObj gs)"
  show "\<exists>kvs'. whitelist_configs (JObj kvs) = Inr (JObj kvs') \<and>
         map_of kvs' (ustr ''kernel'') = Some (JObj (allowed KERNEL_WHITELIST ks)) \<and>
         map_of kvs' (ustr ''grsecurity'') = Some (JObj (allowed GRSECURITY_WHITELIST gs)) \<and>
         (\<forall>k. map_of (allowed KERNEL_WHITELIST ks) k =
              (if k \<in> set KERNEL_WHITELIST then map_of ks k else None)) \<and>
         (\<forall>k. map_of (allowed GRSECURITY_WHITELIST gs) k =
              (if k \<in> set GRSECURITY_WHITELIST then map_of gs k else None))"
    using whitelist_configs_report [of kvs ks gs] filtered_lookups(1,2) [of kvs ks gs] a
      map_of_allowed
    by blast
next
  assume "map_of kvs (ustr ''kernel'') = None"
  then show "whitelist_configs (JObj kvs) = Inl KeyError"
    unfolding whitelist_configs_def by simp
next
  fix ks
  assume a: "map_of kvs (ustr ''kernel'') = Some (JObj ks) \<and>
             map_of kvs (ustr ''grsecurity'') = None"
  have "map_of (AList.update (ustr ''kernel'') (JObj (filter_dict KERNEL_WHITELIST ks)) kvs)
          (ustr ''grsecurity'') = None"
    using a sections_distinct by (simp add: update_conv')
  then show "whitelist_configs (JObj kvs) = Inl KeyError"
    unfolding whitelist_configs_def using a by simp
qed

theorem whitelist_configs_sections_witness:
  "whitelist_configs example_report = Inr example_report_filtered \<and>
   whitelist_configs report_without_grsecurity = Inl KeyError \<and>
   whitelist_configs (JObj []) = Inl KeyError"
proof -
  have a: "whitelist_configs example_report = Inr example_report_filtered" by code_simp
  have b: "map_of [(ustr ''kernel'', JObj [(ustr ''gcc_stack_protector'', JStr (ustr ''yes''))])]
             (ustr ''kernel'') = Some (JObj [(ustr ''gcc_stack_protector'', JStr (ustr ''yes''))]) \<and>
           map_of [(ustr ''kernel'', JObj [(ustr ''gcc_stack_protector'', JStr (ustr ''yes''))])]
             (ustr ''grsecurity'') = None"
    by code_simp
  have c: "whitelist_configs report_without_grsecurity = Inl KeyError"
    unfolding report_without_grsecurity_def
    using whitelist_configs_sections
      [of "[(ustr ''kernel'', JObj [(ustr ''gcc_stack_protector'', JStr (ustr ''yes''))])]"] b
    by blast
  have d: "whitelist_configs (JObj []) = Inl KeyError"
    using whitelist_configs_sections [of "[]"] by simp
  show ?thesis using a c d by blast
qed

text \<open>
  As first stated, C4 has a section absent from the input simply absent from the
  output, with no error: on a report without \<open>grsecurity\<close> the filter raises instead.
\<close>

theorem absent_section_raises:
  "whitelist_configs report_without_grsecurity = Inl KeyError"
  by code_simp

text \<open>
  Claim C7. The filter is idempotent: on an audit report with both sections, filtering
  the filtered report returns it unchanged.
\<close>

theorem whitelist_configs_idempotent:
  assumes "audit_report r"
  shows "\<exists>r'. whitelist_configs r = Inr r' \<and> whitelist_configs r' = Inr r'"
proof -
  from assms obtain kvs ks gs where r: "r = JObj kvs"
      and k: "map_of kvs (ustr ''kernel'') = Some (JObj ks)"
      and g: "map_of kvs (ustr ''grsecurity'') = Some (JObj gs)"
    using whitelist_configs_cases by blast
  define kvs' where "kvs' = AList.update (ustr ''grsecurity'') (JObj (allowed GRSECURITY_WHITELIST gs))
                     (AList.update (ustr ''kernel'') (JObj (allowed KERNEL_WHITELIST ks)) kvs)"
  have first: "whitelist_configs r = Inr (JObj kvs')"
    unfolding r kvs'_def by (rule whitelist_configs_report [OF k g])
  have k': "map_of kvs' (ustr ''kernel'') = Some (JObj (allowed KERNEL_WHITELIST ks))"
    unfolding kvs'_def by (rule filtered_lookups(1) [OF k g])
  have g': "map_of kvs' (ustr ''grsecurity'') = Some (JObj (allowed GRSECURITY_WHITELIST gs))"
    unfolding kvs'_def by (rule filtered_lookups(2) [OF k g])
  have "whitelist_configs (JObj kvs') =
        Inr (JObj (AList.update (ustr ''grsecurity'')
                     (JObj (allowed GRSECURITY_WHITELIST (allowed GRSECURITY_WHITELIST gs)))
                     (AList.update (ustr ''kernel'')
                        (JObj (allowed KERNEL_WHITELIST (allowed KERNEL_WHITELIST ks))) kvs')))"
    by (rule whitelist_configs_report [OF k' g'])
  also have "\<dots> = Inr (JObj kvs')"
    unfolding allowed_idem update_triv [OF k'] update_triv [OF g'] ..
  finally show ?thesis using first by blast
qed

theorem whitelist_configs_idempotent_witness:
  "audit_report example_report \<and>
   whitelist_configs example_report = Inr example_report_filtered \<and>
   whitelist_configs example_report_filtered = Inr example_report_filtered"
proof -
  have a: "audit_report example_report" by code_simp
  have b: "whitelist_configs example_report = Inr example_report_filtered" by code_simp
  from whitelist_configs_idempotent [OF a] b
  have "whitelist_configs example_report_filtered = Inr example_report_filtered" by auto
  then show ?thesis using a b by blast
qed

text \<open>
  Claim C10. The filter only deletes entries: on an audit report with both sections,
  every allow-listed key of \<open>kernel\<close> and of \<open>grsecurity\<close> keeps its value, every entry of
  the filtered sections is an entry of the original ones, the top-level keys are the
  same, and every top-level entry other than the two sections is unchanged.
\<close>

theorem whitelist_configs_only_deletes:
  assumes "audit_report r"
  shows "\<exists>r' ks gs ks' gs'.
           whitelist_configs r = Inr r' \<and>
           report_section r (ustr ''kernel'') = Some ks \<and>
           report_section r' (ustr ''kernel'') = Some ks' \<and>
           report_section r (ustr ''grsecurity'') = Some gs \<and>
           report_section r' (ustr ''grsecurity'') = Some gs' \<and>
           (\<forall>k\<in>set KERNEL_WHITELIST. map_of ks' k = map_of ks k) \<and>
           (\<forall>k\<in>set GRSECURITY_WHITELIST. map_of gs' k = map_of gs k) \<and>
           (\<forall>k v. map_of ks' k = Some v \<longrightarrow> map_of ks k = Some v) \<and>
           (\<forall>k v. map_of gs' k = Some v \<longrightarrow> map_of gs k = Some v) \<and>
           set ks' \<subseteq> set ks \<and> set gs' \<subseteq> set gs \<and>
           section_names r' = section_names r \<and>
           (\<forall>name. name \<noteq> ustr ''kernel'' \<and> name \<noteq> ustr ''grsecurity'' \<longrightarrow>
              entry r' name = entry r name)"
proof -
  from assms obtain kvs ks gs where r: "r = JObj kvs"
      and k: "map_of kvs (ustr ''kernel'') = Some (JObj ks)"
      and g: "map_of kvs (ustr ''grsecurity'') = Some (JObj gs)"
    using whitelist_configs_cases by blast
  define kvs' where "kvs' = AList.update (ustr ''grsecurity'') (JObj (allowed GRSECURITY_WHITELIST gs))
                     (AList.update (ustr ''kernel'') (JObj (allowed KERNEL_WHITELIST ks)) kvs)"
  define ks' where "ks' = allowed KERNEL_WHITELIST ks"
  define gs' where "gs' = allowed GRSECURITY_WHITELIST gs"
  have 1: "whitelist_configs r = Inr (JObj kvs')"
    unfolding r kvs'_def by (rule whitelist_configs_report [OF k g])
  have 2: "report_section r (ustr ''kernel'') = Some ks" unfolding r using k by simp
  have 3: "report_section (JObj kvs') (ustr ''kernel'') = Some ks'"
    unfolding kvs'_def ks'_def using filtered_lookups(1) [OF k g] by simp
  have 4: "report_section r (ustr ''grsecurity'') = Some gs" unfolding r using g by simp
  have 5: "report_section (JObj kvs') (ustr ''grsecurity'') = Some gs'"
    unfolding kvs'_def gs'_def using filtered_lookups(2) [OF k g] by simp
  have 6: "\<forall>k\<in>set KERNEL_WHITELIST. map_of ks' k = map_of ks k"
    unfolding ks'_def by (simp add: map_of_allowed)
  have 7: "\<forall>k\<in>set GRSECURITY_WHITELIST. map_of gs' k = map_of gs k"
    unfolding gs'_def by (simp add: map_of_allowed)
  have 8: "\<forall>k v. map_of ks' k = Some v \<longrightarrow> map_of ks k = Some v"
    unfolding ks'_def by (simp add: map_of_allowed split: if_splits)
  have 9: "\<forall>k v. map_of gs' k = Some v \<longrightarrow> map_of gs k = Some v"
    unfolding gs'_def by (simp add: map_of_allowed split: if_splits)
  have 10: "set ks' \<subseteq> set ks \<and> set gs' \<subseteq> set gs"
    unfolding ks'_def gs'_def allowed_def by auto
  have 11: "section_names (JObj kvs') = section_names r"
    unfolding r kvs'_def using filtered_lookups(4) [OF k g] by simp
  have 12: "\<forall>name. name \<noteq> ustr ''kernel'' \<and> name \<noteq> ustr ''grsecurity'' \<longrightarrow>
              entry (JObj kvs') name = entry r name"
    unfolding r kvs'_def using filtered_lookups(3) [OF k g] by simp
  show ?thesis using 1 2 3 4 5 6 7 8 9 10 11 12 by blast
qed

theorem whitelist_configs_only_deletes_witness:
  "audit_report example_report \<and>
   whitelist_configs example_report = Inr example_report_filtered \<and>
   entry example_report_filtered (ustr ''selinux'') = entry example_report (ustr ''selinux'') \<and>
   section_names example_report_filtered = section_names example_report"
proof -
  have a: "audit_report example_report" by code_simp
  have b: "whitelist_configs example_report = Inr example_report_filtered" by code_simp
  have c: "ustr ''selinux'' \<noteq> ustr ''kernel'' \<and> ustr ''selinux'' \<noteq> ustr ''grsecurity''"
    by code_simp
  from whitelist_configs_only_deletes [OF a] b c
  have "entry example_report_filtered (ustr ''selinux'') = entry example_report (ustr ''selinux'') \<and>
        section_names example_report_filtered = section_names example_report"
    by auto
  then show ?thesis using a b by blast
qed

section \<open>The analysis of one object\<close>

lemma ustr_eq_iff [simp]: "(ustr a = ustr b) = (a = b)"
  unfolding ustr_def by (simp add: inj_map_eq_map inj_of_char)

lemma classify_decodes: "classify P b \<Longrightarrow> \<exists>t. decode b = Some t"
  unfolding classify_def probably_kernel_config_def by (cases "decode b") simp_all

lemma fresh_lookup: "map_of (AList.update NAME d pa) NAME = Some d"
  by (simp add: update_conv')

lemma fresh_mime:
  "object_mime_is_plaintext (fo\<lparr>processed_analysis := AList.update NAME d (processed_analysis fo)\<rparr>) =
   object_mime_is_plaintext fo"
  unfolding object_mime_is_plaintext_def by (simp add: update_conv' NAME_def)

lemma fresh_kernel_image:
  "object_is_kernel_image P (fo\<lparr>processed_analysis := AList.update NAME d (processed_analysis fo)\<rparr>) =
   object_is_kernel_image P fo"
  unfolding object_is_kernel_image_def by (simp add: update_conv' NAME_def)

lemma add_kernel_config_fresh:
  assumes "decode b = Some t"
  shows "add_kernel_config_to_analysis
           (fo\<lparr>processed_analysis := AList.update NAME [] (processed_analysis fo)\<rparr>) b =
         Inr (fo\<lparr>processed_analysis :=
                  AList.update NAME
                    [(ustr ''is_kernel_config'', JBool True), (ustr ''kernel_config'', JStr t)]
                    (processed_analysis fo),
                analysis_tags :=
                  analysis_tags fo @ [(ustr ''IKCONFIG'', ustr ''Kernel Configuration'')]\<rparr>)"
  unfolding add_kernel_config_to_analysis_def set_result_def add_analysis_tag_def
  by (simp add: assms fresh_lookup)

lemma finish_found:
  "(case add_summary
          (fo\<lparr>processed_analysis :=
                  AList.update NAME
                    [(ustr ''is_kernel_config'', JBool True), (ustr ''kernel_config'', JStr t)]
                    (processed_analysis fo),
                analysis_tags :=
                  analysis_tags fo @ [(ustr ''IKCONFIG'', ustr ''Kernel Configuration'')]\<rparr>) of
      Inl e \<Rightarrow> Inl e
    | Inr fo2 \<Rightarrow> add_checksec P fo2) = complete P fo (Found t)"
  unfolding add_summary_def add_checksec_def get_result_def set_result_def get_summary_def
  by (simp add: fresh_lookup found_record_def split: sum.splits)

lemma finish_not_found:
  "(case add_summary (fo\<lparr>processed_analysis := AList.update NAME [] (processed_analysis fo)\<rparr>) of
      Inl e \<Rightarrow> Inl e
    | Inr fo2 \<Rightarrow> add_checksec P fo2) = complete P fo NotAConfig"
  unfolding add_summary_def add_checksec_def get_result_def set_result_def get_summary_def
  by (simp add: fresh_lookup not_found_record_def)

lemma finish_classified:
  assumes "classify P b"
  shows "finish P (add_kernel_config_to_analysis
           (fo\<lparr>processed_analysis := AList.update NAME [] (processed_analysis fo)\<rparr>) b) =
         complete P fo (as_text b)"
proof -
  from classify_decodes [OF assms] obtain t where t: "decode b = Some t" ..
  show ?thesis
    unfolding finish_def add_kernel_config_fresh [OF t]
    using finish_found [where fo = fo and t = t and P = P] by (simp add: as_text_def t)
qed

lemma finish_unclassified:
  "finish P (Inr (fo\<lparr>processed_analysis := AList.update NAME [] (processed_analysis fo)\<rparr>)) =
   complete P fo NotAConfig"
  unfolding finish_def using finish_not_found [where fo = fo and P = P] by simp

lemma finish_extract:
  "finish P
     (let maybe_config = try_object_extract_ikconfig (decompress P) (binary fo)
      in if classify P maybe_config
         then add_kernel_config_to_analysis
                (fo\<lparr>processed_analysis := AList.update NAME [] (processed_analysis fo)\<rparr>)
                maybe_config
         else Inr (fo\<lparr>processed_analysis := AList.update NAME [] (processed_analysis fo)\<rparr>)) =
   complete P fo
     (let result = try_object_extract_ikconfig (decompress P) (binary fo)
      in if classify P result then as_text result else NotAConfig)"
  unfolding Let_def using finish_classified finish_unclassified by simp

lemma process_object_finish:
  "process_object P fo =
   finish P (find_config P
     (fo\<lparr>processed_analysis := AList.update NAME [] (processed_analysis fo)\<rparr>))"
  unfolding process_object_def finish_def Let_def ..

lemma finish_Inl: "finish P (Inl e) = Inl e"
  by (simp add: finish_def)

lemma process_object_gate:
  "process_object P fo =
   (case gate P fo of Inl e \<Rightarrow> Inl e | Inr ki \<Rightarrow> complete P fo (policy_with P fo ki))"
proof -
  let ?fo0 = "fo\<lparr>processed_analysis := AList.update NAME [] (processed_analysis fo)\<rparr>"
  define first where "first = (object_mime_is_plaintext fo \<and> classify P (binary fo))"
  define ext where "ext =
     (let maybe_config = try_object_extract_ikconfig (decompress P) (binary fo)
      in if classify P maybe_config
         then add_kernel_config_to_analysis ?fo0 maybe_config
         else Inr ?fo0)"
  define v where "v =
     (let result = try_object_extract_ikconfig (decompress P) (binary fo)
      in if classify P result then as_text result else NotAConfig)"
  have fc: "find_config P ?fo0 =
     (if first then add_kernel_config_to_analysis ?fo0 (binary fo)
      else (case (if file_name fo = ustr ''configs.ko'' then Inr True
                  else object_is_kernel_image P fo) of
              Inl e \<Rightarrow> Inl e
            | Inr False \<Rightarrow> Inr ?fo0
            | Inr True \<Rightarrow> ext))"
    unfolding find_config_def first_def ext_def
    by (simp add: fresh_mime fresh_kernel_image cong: sum.case_cong bool.case_cong)
  have g: "gate P fo =
     (if first then Inr False
      else if file_name fo = ustr ''configs.ko'' then Inr True
      else object_is_kernel_image P fo)"
    unfolding gate_def first_def ..
  have pw: "policy_with P fo ki =
     (if first then as_text (binary fo)
      else if file_name fo = ustr ''configs.ko'' \<or> ki then v else NotAConfig)" for ki
    unfolding policy_with_def first_def v_def ..
  have f1: "finish P (add_kernel_config_to_analysis ?fo0 (binary fo)) =
            complete P fo (as_text (binary fo))" if first
    using that finish_classified unfolding first_def by simp
  have f2: "finish P ext = complete P fo v"
    unfolding ext_def v_def by (rule finish_extract)
  have f3: "finish P (Inr ?fo0) = complete P fo NotAConfig"
    by (rule finish_unclassified)
  show ?thesis
  proof (cases first)
    case True
    then show ?thesis unfolding process_object_finish fc g pw by (simp add: f1)
  next
    case nfirst: False
    show ?thesis
    proof (cases "file_name fo = ustr ''configs.ko''")
      case True
      then show ?thesis unfolding process_object_finish fc g pw using nfirst by (simp add: f2)
    next
      case fn: False
      show ?thesis
      proof (cases "object_is_kernel_image P fo")
        case (Inl e)
        then show ?thesis unfolding process_object_finish fc g pw using nfirst fn
          by (simp add: finish_Inl)
      next
        case (Inr ki)
        then show ?thesis unfolding process_object_finish fc g pw using nfirst fn
          by (cases ki) (simp_all add: f2 f3)
      qed
    qed
  qed
qed

lemma any_linux_kernel_texts:
  "texts_of comps = Some hints \<Longrightarrow>
   any_linux_kernel ul comps =
   Inr (list_ex (\<lambda>hint. str_contains (ustr ''linux kernel'') (str_lower ul hint)) hints)"
proof (induction comps arbitrary: hints)
  case Nil
  then show ?case by simp
next
  case (Cons c cs)
  then show ?case by (cases c) auto
qed

lemma kernel_image_hints:
  assumes "hints_typed fo"
  shows "object_is_kernel_image P fo =
         Inr (list_ex (\<lambda>hint. str_contains (ustr ''linux kernel'')
                                 (str_lower (unicode_lower P) hint))
               (case component_hints fo of None \<Rightarrow> [] | Some hints \<Rightarrow> hints))"
proof (cases "map_of (processed_analysis fo) (ustr ''software_components'')")
  case None
  then show ?thesis unfolding object_is_kernel_image_def component_hints_def by simp
next
  case (Some sc)
  show ?thesis
  proof (cases "map_of sc (ustr ''summary'')")
    case None
    then show ?thesis unfolding object_is_kernel_image_def component_hints_def Some by simp
  next
    case summ: (Some summary)
    from assms obtain comps hints where c: "summary = JArr comps" "texts_of comps = Some hints"
      unfolding hints_typed_def component_hints_def Some using summ
      by (cases summary) auto
    show ?thesis
      unfolding object_is_kernel_image_def component_hints_def Some
      using summ c any_linux_kernel_texts [OF c(2)] by simp
  qed
qed

lemma mime_declared:
  "object_mime_is_plaintext fo = (declared_mime fo = Some (JStr (ustr ''text/plain'')))"
  unfolding object_mime_is_plaintext_def declared_mime_def
  by (auto split: option.splits)

lemma policy_with_hints:
  assumes "hints_typed fo"
  shows "(case gate P fo of Inl e \<Rightarrow> Inl e | Inr ki \<Rightarrow> complete P fo (policy_with P fo ki)) =
         complete P fo (policy P fo)"
proof -
  define ki where "ki = list_ex (\<lambda>hint. str_contains (ustr ''linux kernel'')
                                 (str_lower (unicode_lower P) hint))
               (case component_hints fo of None \<Rightarrow> [] | Some hints \<Rightarrow> hints)"
  have k: "object_is_kernel_image P fo = Inr ki"
    unfolding ki_def by (rule kernel_image_hints [OF assms])
  have p: "policy P fo = policy_with P fo ki"
    unfolding policy_def policy_with_def ki_def mime_declared ..
  show ?thesis unfolding p gate_def k by (simp add: policy_with_def)
qed

lemma process_object_policy:
  "hints_typed fo \<Longrightarrow> process_object P fo = complete P fo (policy P fo)"
  unfolding process_object_gate by (rule policy_with_hints)

lemma result_found_record:
  "map_of (processed_analysis (found_record fo t report)) NAME =
   Some [(ustr ''is_kernel_config'', JBool True), (ustr ''kernel_config'', JStr t),
         (ustr ''summary'', JArr [JStr (ustr ''Kernel Config'')]), (ustr ''checksec'', report)]"
  unfolding found_record_def by (simp add: update_conv')

lemma result_not_found_record:
  "map_of (processed_analysis (not_found_record fo)) NAME = Some [(ustr ''summary'', JArr [])]"
  unfolding not_found_record_def by (simp add: update_conv')

lemma verdict_of_found: "verdict_of (found_record fo t report) = Found t"
  unfolding verdict_of_def result_found_record by simp

lemma verdict_of_not_found: "verdict_of (not_found_record fo) = NotAConfig"
  unfolding verdict_of_def result_not_found_record by simp

text \<open>
  Claim C1. The decision policy of the orchestrator, for every raw object (its component
  hints a list of texts): Found with the object's bytes as text when the declared MIME
  type is the plain-text marker and the classifier accepts the bytes; otherwise, when
  the file name is \<open>configs.ko\<close> or some component hint in lower case contains
  \<open>linux kernel\<close>, the cascade is run and the verdict is Found with its result iff the
  classifier accepts that result; NotAConfig in every other case. A negative verdict is
  always returned; a positive one is returned with the audit's report, and only an
  exception of the audit step can take its place.
\<close>

theorem orchestrator_policy:
  assumes "hints_typed fo"
  shows "(case policy P fo of
            NotAConfig \<Rightarrow>
              (\<exists>fo'. process_object P fo = Inr fo' \<and> verdict_of fo' = NotAConfig)
          | Found t \<Rightarrow>
              (case check_kernel_config P t of
                 Inl e \<Rightarrow> process_object P fo = Inl e
               | Inr report \<Rightarrow>
                   (\<exists>fo'. process_object P fo = Inr fo' \<and> verdict_of fo' = Found t)))"
  unfolding process_object_policy [OF assms]
  by (auto split: verdict.splits sum.splits simp: verdict_of_found verdict_of_not_found)

theorem orchestrator_policy_witness:
  "(\<exists>fo'. process_object example_platform plain_object = Inr fo' \<and>
          verdict_of fo' = Found (map of_char example_config)) \<and>
   (\<exists>fo'. process_object example_platform octet_object = Inr fo' \<and>
          verdict_of fo' = NotAConfig) \<and>
   (\<exists>fo'. process_object example_platform kernel_image_object = Inr fo' \<and>
          verdict_of fo' = Found (map of_char example_config)) \<and>
   (\<exists>fo'. process_object example_platform module_object = Inr fo' \<and>
          verdict_of fo' = Found (map of_char example_config))"
proof -
  have h: "hints_typed plain_object" "hints_typed octet_object"
    "hints_typed kernel_image_object" "hints_typed module_object"
    by code_simp+
  have p: "policy example_platform plain_object = Found (map of_char example_config)"
    "policy example_platform octet_object = NotAConfig"
    "policy example_platform kernel_image_object = Found (map of_char example_config)"
    "policy example_platform module_object = Found (map of_char example_config)"
    by code_simp+
  have c: "check_kernel_config example_platform (map of_char example_config) =
           Inr example_report_filtered"
    by code_simp
  show ?thesis
    using orchestrator_policy [OF h(1), of example_platform]
      orchestrator_policy [OF h(2), of example_platform]
      orchestrator_policy [OF h(3), of example_platform]
      orchestrator_policy [OF h(4), of example_platform]
    by (simp add: p c)
qed

lemma policy_with_found:
  assumes "policy_with P fo ki = Found t"
  shows "\<exists>b. (b = binary fo \<or> b = try_object_extract_ikconfig (decompress P) (binary fo)) \<and>
             classify P b \<and> decode b = Some t"
proof -
  have as: "as_text b = Found t \<Longrightarrow> decode b = Some t" for b
    unfolding as_text_def by (cases "decode b") simp_all
  show ?thesis
  proof (cases "object_mime_is_plaintext fo \<and> classify P (binary fo)")
    case True
    then have "as_text (binary fo) = Found t" using assms unfolding policy_with_def by simp
    then show ?thesis using True as by blast
  next
    case False
    then have f: "(object_mime_is_plaintext fo \<and> classify P (binary fo)) = False" by simp
    define m where "m = try_object_extract_ikconfig (decompress P) (binary fo)"
    have "(if file_name fo = ustr ''configs.ko'' \<or> ki
           then if classify P m then as_text m else NotAConfig else NotAConfig) = Found t"
      using assms unfolding policy_with_def f m_def Let_def by simp
    then have "classify P m \<and> as_text m = Found t"
      by (simp split: if_splits)
    then show ?thesis using as unfolding m_def by blast
  qed
qed

lemma process_object_results:
  assumes "process_object P fo = Inr fo'"
  shows "fo' = not_found_record fo \<or>
         (\<exists>b t report.
            (b = binary fo \<or> b = try_object_extract_ikconfig (decompress P) (binary fo)) \<and>
            classify P b \<and> decode b = Some t \<and> check_kernel_config P t = Inr report \<and>
            fo' = found_record fo t report)"
proof -
  from assms obtain ki where c: "complete P fo (policy_with P fo ki) = Inr fo'"
    unfolding process_object_gate by (cases "gate P fo") simp_all
  show ?thesis
  proof (cases "policy_with P fo ki")
    case NotAConfig
    then show ?thesis using c by simp
  next
    case (Found t)
    from policy_with_found [OF Found] obtain b where b:
      "b = binary fo \<or> b = try_object_extract_ikconfig (decompress P) (binary fo)"
      "classify P b" "decode b = Some t"
      by blast
    from c obtain report where "check_kernel_config P t = Inr report"
      "fo' = found_record fo t report"
      unfolding Found by (cases "check_kernel_config P t") auto
    then show ?thesis using b by blast
  qed
qed

text \<open>
  Claim C6. A Found verdict is produced only for classified text: whenever the result
  record of a processed object has the flag \<open>is_kernel_config\<close> or a \<open>kernel_config\<close> text, the
  flag is \<open>True\<close> and the text is the decoding of bytes the classifier accepted, those
  bytes being the object's own or the result of the cascade on them.
\<close>

theorem found_only_if_classified:
  assumes "process_object P fo = Inr fo'"
    and "map_of (processed_analysis fo') NAME = Some results"
    and "map_of results (ustr ''is_kernel_config'') \<noteq> None \<or>
         map_of results (ustr ''kernel_config'') \<noteq> None"
  shows "\<exists>b t. (b = binary fo \<or> b = try_object_extract_ikconfig (decompress P) (binary fo)) \<and>
           probably_kernel_config (unicode_word P) (unicode_digit P) b \<and>
           decode b = Some t \<and>
           map_of results (ustr ''kernel_config'') = Some (JStr t) \<and>
           map_of results (ustr ''is_kernel_config'') = Some (JBool True) \<and>
           verdict_of fo' = Found t"
proof -
  from process_object_results [OF assms(1)]
  show ?thesis
  proof
    assume "fo' = not_found_record fo"
    then have "results = [(ustr ''summary'', JArr [])]"
      using assms(2) result_not_found_record by simp
    then show ?thesis using assms(3) by simp
  next
    assume "\<exists>b t report.
            (b = binary fo \<or> b = try_object_extract_ikconfig (decompress P) (binary fo)) \<and>
            classify P b \<and> decode b = Some t \<and> check_kernel_config P t = Inr report \<and>
            fo' = found_record fo t report"
    then obtain b t report where b:
      "b = binary fo \<or> b = try_object_extract_ikconfig (decompress P) (binary fo)"
      "classify P b" "decode b = Some t" "fo' = found_record fo t report"
      by blast
    have r: "results = [(ustr ''is_kernel_config'', JBool True), (ustr ''kernel_config'', JStr t),
         (ustr ''summary'', JArr [JStr (ustr ''Kernel Config'')]), (ustr ''checksec'', report)]"
      using assms(2) result_found_record unfolding b(4) by simp
    have "map_of results (ustr ''kernel_config'') = Some (JStr t) \<and>
          map_of results (ustr ''is_kernel_config'') = Some (JBool True)"
      unfolding r by simp
    moreover have "verdict_of fo' = Found t" unfolding b(4) by (rule verdict_of_found)
    ultimately show ?thesis using b(1,2,3) unfolding classify_def by blast
  qed
qed

theorem found_only_if_classified_witness:
  "(\<exists>fo' results.
      process_object example_platform kernel_image_object = Inr fo' \<and>
      map_of (processed_analysis fo') NAME = Some results \<and>
      map_of results (ustr ''kernel_config'') = Some (JStr (map of_char example_config)) \<and>
      map_of results (ustr ''is_kernel_config'') = Some (JBool True)) \<and>
   probably_kernel_config ascii_only ascii_only
     (try_object_extract_ikconfig example_decompress (binary kernel_image_object)) \<and>
   \<not> probably_kernel_config ascii_only ascii_only (binary kernel_image_object)"
proof -
  define fo' where "fo' = found_record kernel_image_object (map of_char example_config)
                            example_report_filtered"
  define results where "results =
     [(ustr ''is_kernel_config'', JBool True),
      (ustr ''kernel_config'', JStr (map of_char example_config)),
      (ustr ''summary'', JArr [JStr (ustr ''Kernel Config'')]),
      (ustr ''checksec'', example_report_filtered)]"
  have a: "process_object example_platform kernel_image_object = Inr fo'"
    unfolding fo'_def by code_simp
  have b: "map_of (processed_analysis fo') NAME = Some results"
    unfolding fo'_def results_def by (rule result_found_record)
  have c: "map_of results (ustr ''is_kernel_config'') \<noteq> None \<or>
           map_of results (ustr ''kernel_config'') \<noteq> None"
    unfolding results_def by simp
  have d: "\<not> probably_kernel_config ascii_only ascii_only (binary kernel_image_object)"
    by code_simp
  have e: "decode (try_object_extract_ikconfig example_decompress (binary kernel_image_object)) =
           Some (map of_char example_config)"
    by code_simp
  have u: "unicode_word example_platform = ascii_only" "unicode_digit example_platform = ascii_only"
    "decompress example_platform = example_decompress"
    by (simp_all add: example_platform_def)
  from found_only_if_classified [OF a b c] obtain b0 t where bt:
    "b0 = binary kernel_image_object \<or>
     b0 = try_object_extract_ikconfig example_decompress (binary kernel_image_object)"
    "probably_kernel_config ascii_only ascii_only b0"
    "map_of results (ustr ''kernel_config'') = Some (JStr t)"
    "map_of results (ustr ''is_kernel_config'') = Some (JBool True)"
    unfolding u by blast
  have "b0 = try_object_extract_ikconfig example_decompress (binary kernel_image_object)"
    using bt(1,2) d by blast
  then have "probably_kernel_config ascii_only ascii_only
     (try_object_extract_ikconfig example_decompress (binary kernel_image_object))"
    using bt(2) by simp
  moreover have "map_of results (ustr ''kernel_config'') = Some (JStr (map of_char example_config))"
    unfolding results_def by simp
  ultimately show ?thesis using a b bt(4) d by blast
qed

text \<open>
  Claim C8. The result record of every processed object has a \<open>summary\<close>, which is
  \<open>['Kernel Config']\<close> iff \<open>is_kernel_config\<close> is present and \<open>True\<close> and \<open>[]\<close> otherwise; the flag
  \<open>is_kernel_config\<close>, when present, is \<open>True\<close>; and \<open>checksec\<close> is present iff \<open>kernel_config\<close> is.
\<close>

theorem result_record_invariant:
  assumes "process_object P fo = Inr fo'"
  shows "\<exists>results.
           map_of (processed_analysis fo') NAME = Some results \<and>
           map_of results (ustr ''summary'') =
             Some (JArr (if map_of results (ustr ''is_kernel_config'') = Some (JBool True)
                         then [JStr (ustr ''Kernel Config'')] else [])) \<and>
           (\<forall>v. map_of results (ustr ''is_kernel_config'') = Some v \<longrightarrow> v = JBool True) \<and>
           ((map_of results (ustr ''checksec'') \<noteq> None) =
            (map_of results (ustr ''kernel_config'') \<noteq> None))"
proof -
  from process_object_results [OF assms]
  show ?thesis
  proof
    assume "fo' = not_found_record fo"
    then have "map_of (processed_analysis fo') NAME = Some [(ustr ''summary'', JArr [])]"
      using result_not_found_record by simp
    then show ?thesis by simp
  next
    assume "\<exists>b t report.
            (b = binary fo \<or> b = try_object_extract_ikconfig (decompress P) (binary fo)) \<and>
            classify P b \<and> decode b = Some t \<and> check_kernel_config P t = Inr report \<and>
            fo' = found_record fo t report"
    then obtain t report where "fo' = found_record fo t report" by blast
    then have "map_of (processed_analysis fo') NAME =
       Some [(ustr ''is_kernel_config'', JBool True), (ustr ''kernel_config'', JStr t),
         (ustr ''summary'', JArr [JStr (ustr ''Kernel Config'')]), (ustr ''checksec'', report)]"
      using result_found_record by simp
    then show ?thesis by simp
  qed
qed

theorem result_record_invariant_witness:
  "(\<exists>fo' results.
      process_object example_platform plain_object = Inr fo' \<and>
      map_of (processed_analysis fo') NAME = Some results \<and>
      map_of results (ustr ''summary'') = Some (JArr [JStr (ustr ''Kernel Config'')]) \<and>
      map_of results (ustr ''is_kernel_config'') = Some (JBool True) \<and>
      map_of results (ustr ''checksec'') \<noteq> None) \<and>
   (\<exists>fo' results.
      process_object example_platform octet_object = Inr fo' \<and>
      map_of (processed_analysis fo') NAME = Some results \<and>
      map_of results (ustr ''summary'') = Some (JArr []) \<and>
      map_of results (ustr ''is_kernel_config'') = None \<and>
      map_of results (ustr ''checksec'') = None)"
proof -
  have a: "process_object example_platform plain_object =
           Inr (found_record plain_object (map of_char example_config) example_report_filtered)"
    by code_simp
  have b: "process_object example_platform octet_object = Inr (not_found_record octet_object)"
    by code_simp
  from result_record_invariant [OF a] obtain r1 where r1:
    "map_of (processed_analysis
       (found_record plain_object (map of_char example_config) example_report_filtered)) NAME =
     Some r1"
    "map_of r1 (ustr ''summary'') =
       Some (JArr (if map_of r1 (ustr ''is_kernel_config'') = Some (JBool True)
                   then [JStr (ustr ''Kernel Config'')] else []))"
    "(map_of r1 (ustr ''checksec'') \<noteq> None) = (map_of r1 (ustr ''kernel_config'') \<noteq> None)"
    by blast
  have k1: "map_of r1 (ustr ''is_kernel_config'') = Some (JBool True)"
    "map_of r1 (ustr ''kernel_config'') \<noteq> None"
    using r1(1) unfolding result_found_record by auto
  from result_record_invariant [OF b] obtain r2 where r2:
    "map_of (processed_analysis (not_found_record octet_object)) NAME = Some r2"
    "map_of r2 (ustr ''summary'') =
       Some (JArr (if map_of r2 (ustr ''is_kernel_config'') = Some (JBool True)
                   then [JStr (ustr ''Kernel Config'')] else []))"
    "(map_of r2 (ustr ''checksec'') \<noteq> None) = (map_of r2 (ustr ''kernel_config'') \<noteq> None)"
    by blast
  have k2: "map_of r2 (ustr ''is_kernel_config'') = None"
    "map_of r2 (ustr ''kernel_config'') = None"
    using r2(1) unfolding result_not_found_record by auto
  have p1: "map_of r1 (ustr ''summary'') = Some (JArr [JStr (ustr ''Kernel Config'')]) \<and>
            map_of r1 (ustr ''checksec'') \<noteq> None"
    using r1(2,3) k1 by simp
  have p2: "map_of r2 (ustr ''summary'') = Some (JArr []) \<and> map_of r2 (ustr ''checksec'') = None"
    using r2(2,3) k2 by simp
  show ?thesis using a b r1(1) r2(1) k1(1) k2(1) p1 p2 by blast
qed

section \<open>The audit step\<close>










end
